theory Spec2Isabelle
  imports Main
begin

section \<open>Conway's Game of Chess: the engine of conway\_chess.py\<close>

text \<open>
  The development follows \<^verbatim>\<open>src/conway_chess.py\<close>. Python objects become records,
  methods become functions that take the receiver and return its new value, and every
  \<^verbatim>\<open>raise\<close> is a value \<open>Inl e\<close> of a sum type. Python integers are \<open>int\<close>.

  Piece objects are mutable and shared between the board and \<^verbatim>\<open>Engine.selected_piece\<close>.
  The model passes piece values. A value stands for the object stored on the board at the
  value's own coordinates; the invariant \<open>engine_inv\<close> below, proved for every reachable
  engine, states that board squares carry their own coordinates and that the selected
  piece is the occupant of its square, which is what makes the value reading exact.
\<close>

subsection \<open>Exceptions\<close>

datatype exn =
  Exception string | IndexError string | ValueError string

fun str_exn :: "exn \<Rightarrow> string" where
  "str_exn (Exception m) = m"
| "str_exn (IndexError m) = m"
| "str_exn (ValueError m) = m"

subsection \<open>Python list subscripts\<close>

text \<open>\<^verbatim>\<open>xs[i]\<close>: an index below zero counts from the end, anything outside raises.\<close>

definition py_index :: "'a list \<Rightarrow> int \<Rightarrow> nat option" where
  "py_index xs i =
     (if 0 \<le> i \<and> i < int (length xs) then Some (nat i)
      else if i < 0 \<and> 0 \<le> i + int (length xs) then Some (nat (i + int (length xs)))
      else None)"

definition py_getitem :: "'a list \<Rightarrow> int \<Rightarrow> exn + 'a" where
  "py_getitem xs i =
     (case py_index xs i of
        None \<Rightarrow> Inl (IndexError ''list index out of range'')
      | Some n \<Rightarrow> Inr (xs ! n))"

definition py_setitem :: "'a list \<Rightarrow> int \<Rightarrow> 'a \<Rightarrow> exn + 'a list" where
  "py_setitem xs i v =
     (case py_index xs i of
        None \<Rightarrow> Inl (IndexError ''list assignment index out of range'')
      | Some n \<Rightarrow> Inr (xs[n := v]))"

subsection \<open>Pieces\<close>

text \<open>The strings \<^verbatim>\<open>"white"\<close>, \<^verbatim>\<open>"black"\<close> and \<^verbatim>\<open>"empty"\<close> of \<^verbatim>\<open>Piece.side\<close>
  and \<^verbatim>\<open>Engine.current_turn\<close>.\<close>

datatype side = White | Black | EmptySide

text \<open>The subclass of \<^verbatim>\<open>Piece\<close> an object belongs to.\<close>

datatype kind = Empty | Pawn | Knight | Bishop | Rook | Queen | King

record piece =
  kind :: kind
  side :: side
  row :: int
  col :: int
  death_counter :: int
  birth_counter_white :: int
  birth_counter_black :: int
  surrounding_white :: int
  surrounding_black :: int

text \<open>\<^verbatim>\<open>Piece.__init__\<close>, reached through the subclass constructors.\<close>

definition new_piece :: "kind \<Rightarrow> side \<Rightarrow> piece" where
  "new_piece k s =
     \<lparr>kind = k, side = s, row = -1, col = -1, death_counter = 0,
      birth_counter_white = 0, birth_counter_black = 0,
      surrounding_white = 0, surrounding_black = 0\<rparr>"

text \<open>\<^verbatim>\<open>Empty()\<close>.\<close>

definition new_empty :: piece where
  "new_empty = new_piece Empty EmptySide"

definition set_position :: "piece \<Rightarrow> int \<Rightarrow> int \<Rightarrow> piece" where
  "set_position p r c = p\<lparr>row := r, col := c\<rparr>"

text \<open>\<^verbatim>\<open>__str__\<close> of the subclasses.\<close>

definition upper_symbol :: "kind \<Rightarrow> char" where
  "upper_symbol k =
     (case k of Empty \<Rightarrow> CHR '' '' | Pawn \<Rightarrow> CHR ''P'' | Knight \<Rightarrow> CHR ''N''
      | Bishop \<Rightarrow> CHR ''B'' | Rook \<Rightarrow> CHR ''R'' | Queen \<Rightarrow> CHR ''Q'' | King \<Rightarrow> CHR ''K'')"

definition lower_symbol :: "kind \<Rightarrow> char" where
  "lower_symbol k =
     (case k of Empty \<Rightarrow> CHR '' '' | Pawn \<Rightarrow> CHR ''p'' | Knight \<Rightarrow> CHR ''n''
      | Bishop \<Rightarrow> CHR ''b'' | Rook \<Rightarrow> CHR ''r'' | Queen \<Rightarrow> CHR ''q'' | King \<Rightarrow> CHR ''k'')"

definition str_piece :: "piece \<Rightarrow> string" where
  "str_piece p =
     (if kind p = Empty then '' ''
      else if side p = White then [upper_symbol (kind p)] else [lower_symbol (kind p)])"

text \<open>\<^verbatim>\<open>Piece.move_is_valid\<close>, overridden by \<^verbatim>\<open>Empty.move_is_valid\<close>.\<close>

definition move_is_valid :: "piece \<Rightarrow> piece \<Rightarrow> bool" where
  "move_is_valid self dest_piece =
     (if kind self = Empty then False
      else if side dest_piece = side self then False
      else if side dest_piece = EmptySide then True
      else True)"

text \<open>\<^verbatim>\<open>Piece.perish\<close> does nothing; \<^verbatim>\<open>King.perish\<close> raises.\<close>

definition perish :: "piece \<Rightarrow> bool \<Rightarrow> exn + unit" where
  "perish self conway =
     (if kind self = King then
        (let winning_side = (if side self = Black then ''white'' else ''black'');
             losing_side = (if side self = Black then ''Black'' else ''White'')
         in if conway
            then Inl (Exception (losing_side @ '' king perished, '' @ winning_side @ '' wins!''))
            else Inl (Exception (losing_side @ '' king was captured, '' @ winning_side @ '' wins!'')))
      else Inr ())"

text \<open>The two counting loops of \<^verbatim>\<open>Piece.tick\<close>: one step per neighbour.\<close>

primrec count_side :: "side \<Rightarrow> piece list \<Rightarrow> int" where
  "count_side s [] = 0"
| "count_side s (p # ps) = (if side p = s then 1 else 0) + count_side s ps"

definition tick :: "piece \<Rightarrow> piece list \<Rightarrow> side \<Rightarrow> bool \<Rightarrow> piece" where
  "tick self surrounding_pieces turn update_counters =
     (let self1 = self\<lparr>surrounding_white := count_side White surrounding_pieces,
                        surrounding_black := count_side Black surrounding_pieces\<rparr>
      in if \<not> update_counters then self1
         else if side self1 = EmptySide then
           (let self2 =
                  (if turn = White then
                     (if surrounding_white self1 = 3
                      then self1\<lparr>birth_counter_white := birth_counter_white self1 + 1\<rparr>
                      else self1\<lparr>birth_counter_white := 0\<rparr>)
                   else self1)
            in if turn = Black then
                 (if surrounding_black self2 = 3
                  then self2\<lparr>birth_counter_black := birth_counter_black self2 + 1\<rparr>
                  else self2\<lparr>birth_counter_black := 0\<rparr>)
               else self2)
         else if turn = side self1 then
           (let same_pieces = count_side (side self1) surrounding_pieces
            in if same_pieces < 2 \<or> same_pieces > 3
               then self1\<lparr>death_counter := death_counter self1 + 1\<rparr>
               else self1\<lparr>death_counter := 0\<rparr>)
         else self1)"

subsection \<open>Decimal numerals\<close>

text \<open>\<^verbatim>\<open>str(n)\<close> for an integer, as the f-strings and the FEN export use it.\<close>

definition digit_char :: "nat \<Rightarrow> char" where
  "digit_char d = char_of (48 + d)"

function str_nat :: "nat \<Rightarrow> string" where
  "str_nat n = (if n < 10 then [digit_char n] else str_nat (n div 10) @ [digit_char (n mod 10)])"
  by pat_completeness auto
termination
  by (relation "measure id") auto

definition str_int :: "int \<Rightarrow> string" where
  "str_int i = (if i < 0 then CHR ''-'' # str_nat (nat (- i)) else str_nat (nat i))"

subsection \<open>The board\<close>

type_synonym board = "piece list list"

definition back_rank :: "side \<Rightarrow> piece list" where
  "back_rank s =
     [new_piece Rook s, new_piece Knight s, new_piece Bishop s, new_piece Queen s,
      new_piece King s, new_piece Bishop s, new_piece Knight s, new_piece Rook s]"

text \<open>\<^verbatim>\<open>Board.__init__\<close>: the eight rows, then \<^verbatim>\<open>set_position(i, j)\<close> on every square.\<close>

definition initial_rows :: board where
  "initial_rows =
     [back_rank White, replicate 8 (new_piece Pawn White),
      replicate 8 new_empty, replicate 8 new_empty, replicate 8 new_empty, replicate 8 new_empty,
      replicate 8 (new_piece Pawn Black), back_rank Black]"

definition Board_init :: board where
  "Board_init =
     map (\<lambda>i. map (\<lambda>j. set_position (initial_rows ! i ! j) (int i) (int j)) [0..<8]) [0..<8]"

text \<open>\<^verbatim>\<open>Board.get_piece\<close>: \<^verbatim>\<open>self.board[row][col]\<close>.\<close>

definition get_piece :: "board \<Rightarrow> int \<Rightarrow> int \<Rightarrow> exn + piece" where
  "get_piece b r c =
     (case py_getitem b r of Inl e \<Rightarrow> Inl e | Inr line \<Rightarrow> py_getitem line c)"

text \<open>The assignment \<^verbatim>\<open>self.board[row][col] = v\<close>.\<close>

definition board_set :: "board \<Rightarrow> int \<Rightarrow> int \<Rightarrow> piece \<Rightarrow> exn + board" where
  "board_set b r c v =
     (case py_index b r of
        None \<Rightarrow> Inl (IndexError ''list index out of range'')
      | Some n \<Rightarrow>
          (case py_setitem (b ! n) c v of Inl e \<Rightarrow> Inl e | Inr line \<Rightarrow> Inr (b[n := line])))"

definition get_pieces :: "board \<Rightarrow> piece list" where
  "get_pieces b = concat b"

text \<open>\<^verbatim>\<open>Board.get_surrounding_pieces\<close>. The guard keeps both subscripts within 0..7, so on
  the 8 by 8 board the subscript cannot raise.\<close>

definition neighbour_offsets :: "(int \<times> int) list" where
  "neighbour_offsets = concat (map (\<lambda>i. map (\<lambda>j. (i, j)) [-1..1]) [-1..1])"

definition get_surrounding_pieces :: "board \<Rightarrow> piece \<Rightarrow> piece list" where
  "get_surrounding_pieces b p =
     concat (map (\<lambda>(i, j).
        if i = 0 \<and> j = 0 then []
        else if 0 \<le> row p + i \<and> row p + i < 8 \<and> 0 \<le> col p + j \<and> col p + j < 8
             then [b ! nat (row p + i) ! nat (col p + j)]
             else []) neighbour_offsets)"

definition kind_of_letter :: "string \<Rightarrow> kind option" where
  "kind_of_letter l =
     (if l = ''P'' then Some Pawn
      else if l = ''R'' then Some Rook
      else if l = ''N'' then Some Knight
      else if l = ''B'' then Some Bishop
      else if l = ''Q'' then Some Queen
      else if l = ''K'' then Some King
      else None)"

definition set_new_piece :: "board \<Rightarrow> int \<Rightarrow> int \<Rightarrow> string \<Rightarrow> side \<Rightarrow> exn + board" where
  "set_new_piece b r c l s =
     (case kind_of_letter l of
        None \<Rightarrow> Inl (ValueError ''invalid piece'')
      | Some k \<Rightarrow> board_set b r c (set_position (new_piece k s) r c))"

text \<open>\<^verbatim>\<open>Board.kill_piece\<close>: the board after the call, and the exception if the call raised.\<close>

definition kill_piece :: "board \<Rightarrow> piece \<Rightarrow> side \<Rightarrow> board \<times> exn option" where
  "kill_piece b p turn =
     (if side p = turn then
        (case get_piece b (row p) (col p) of
           Inl x \<Rightarrow> (b, Some x)
         | Inr occupant \<Rightarrow>
             (case perish occupant True of
                Inl x \<Rightarrow> (b, Some x)
              | Inr u \<Rightarrow>
                  (case board_set b (row p) (col p) (set_position new_empty (row p) (col p)) of
                     Inl x \<Rightarrow> (b, Some x)
                   | Inr b' \<Rightarrow> (b', None))))
      else (b, None))"

text \<open>The square a pair of subscripts denotes.\<close>

definition square_index :: "board \<Rightarrow> int \<Rightarrow> int \<Rightarrow> (nat \<times> nat) option" where
  "square_index b r c =
     (case py_index b r of
        None \<Rightarrow> None
      | Some n \<Rightarrow> (case py_index (b ! n) c of None \<Rightarrow> None | Some m \<Rightarrow> Some (n, m)))"

text \<open>\<^verbatim>\<open>Board.move_piece\<close>: the board after the call, and what the call returned or raised.
  The last statement, \<^verbatim>\<open>source.set_position(dest.row, dest.col)\<close>, changes the object
  \<^verbatim>\<open>source\<close>, which the second statement stored on the destination square; it is still
  there unless the third statement put the new \<^verbatim>\<open>Empty()\<close> on that same square.\<close>

definition move_piece :: "board \<Rightarrow> piece \<Rightarrow> piece \<Rightarrow> board \<times> (exn + bool)" where
  "move_piece b source dest =
     (if \<not> move_is_valid source dest then (b, Inr False)
      else
        (case get_piece b (row dest) (col dest) of
           Inl e \<Rightarrow> (b, Inl e)
         | Inr occupant \<Rightarrow>
        (case perish occupant False of
           Inl e \<Rightarrow> (b, Inl e)
         | Inr u \<Rightarrow>
        (case board_set b (row dest) (col dest) source of
           Inl e \<Rightarrow> (b, Inl e)
         | Inr b1 \<Rightarrow>
        (case board_set b1 (row source) (col source)
                (set_position new_empty (row source) (col source)) of
           Inl e \<Rightarrow> (b1, Inl e)
         | Inr b2 \<Rightarrow>
             if square_index b (row dest) (col dest) = square_index b (row source) (col source)
             then (b2, Inr True)
             else
               (case board_set b2 (row dest) (col dest)
                       (set_position source (row dest) (col dest)) of
                  Inl e \<Rightarrow> (b2, Inl e)
                | Inr b3 \<Rightarrow> (b3, Inr True)))))))"

text \<open>\<^verbatim>\<open>Board.get_fen_position\<close>.\<close>

fun fen_row :: "piece list \<Rightarrow> int \<Rightarrow> string" where
  "fen_row [] empty_spaces = (if empty_spaces > 0 then str_int empty_spaces else [])"
| "fen_row (p # ps) empty_spaces =
     (if side p = EmptySide then fen_row ps (empty_spaces + 1)
      else (if empty_spaces > 0 then str_int empty_spaces else []) @ str_piece p @ fen_row ps 0)"

definition turn_name :: "side \<Rightarrow> string" where
  "turn_name s = (case s of White \<Rightarrow> ''white'' | Black \<Rightarrow> ''black'' | EmptySide \<Rightarrow> ''empty'')"

definition get_fen_position :: "board \<Rightarrow> side \<Rightarrow> string" where
  "get_fen_position b turn =
     butlast (concat (map (\<lambda>line. fen_row line 0 @ ''/'') (rev b)))
       @ '' '' @ [hd (turn_name turn)] @ '' - - 0 1''"

subsection \<open>The move-advisory engine\<close>

text \<open>The optional \<^verbatim>\<open>Stockfish\<close> object is not part of the repository. It is a parameter:
  two functions of the FEN string handed to \<^verbatim>\<open>set_fen_position\<close>, where \<open>None\<close> stands for
  a raised exception. \<^verbatim>\<open>get_best_move\<close> may also return Python's \<^verbatim>\<open>None\<close>.\<close>

record stockfish =
  is_move_correct :: "string \<Rightarrow> string \<Rightarrow> bool option"
  get_best_move :: "string \<Rightarrow> string option option"

subsection \<open>The engine\<close>

text \<open>The fields of \<^verbatim>\<open>Engine\<close> that \<^verbatim>\<open>update_state\<close> reads or writes. \<^verbatim>\<open>recent_moves\<close> is
  only ever appended to and is left out, as are the fields that serve the display.\<close>

record engine =
  board :: board
  cursor_row :: int
  cursor_col :: int
  white_birth_queue :: "string list"
  black_birth_queue :: "string list"
  selected_piece :: "piece option"
  current_turn :: side
  recent_moves_str :: "string list"
  game_over_message :: "string option"

text \<open>The key names \<^verbatim>\<open>main_loop\<close> hands to \<^verbatim>\<open>update_state\<close>.\<close>

datatype key = Key_up | Key_down | Key_left | Key_right | Key_stockfish | Key_enter | Key_other

definition birth_queue_seed :: "string list" where
  "birth_queue_seed =
     [''P'', ''R'', ''P'', ''N'', ''P'', ''B'', ''P'', ''Q'', ''P'', ''B'', ''P'', ''N'', ''P'', ''R'']"

definition col_labels :: "string list" where
  "col_labels = [''a'', ''b'', ''c'', ''d'', ''e'', ''f'', ''g'', ''h'']"

text \<open>The loop \<^verbatim>\<open>for piece in self.board.get_pieces(): piece.tick(...)\<close>. The objects are
  visited row by row; \<^verbatim>\<open>tick\<close> changes the visited object in place, so later iterations
  read a board that holds the objects already ticked.\<close>

definition board_squares :: "board \<Rightarrow> (nat \<times> nat) list" where
  "board_squares b = concat (map (\<lambda>i. map (\<lambda>j. (i, j)) [0..<length (b ! i)]) [0..<length b])"

definition tick_square :: "side \<Rightarrow> bool \<Rightarrow> nat \<times> nat \<Rightarrow> board \<Rightarrow> board" where
  "tick_square turn update_counters sq b =
     (case sq of (i, j) \<Rightarrow>
        b[i := (b ! i)[j := tick (b ! i ! j) (get_surrounding_pieces b (b ! i ! j))
                                turn update_counters]])"

definition tick_all :: "board \<Rightarrow> side \<Rightarrow> bool \<Rightarrow> board" where
  "tick_all b turn update_counters = fold (tick_square turn update_counters) (board_squares b) b"

text \<open>\<^verbatim>\<open>Engine.__init__\<close>.\<close>

definition Engine_init :: engine where
  "Engine_init =
     \<lparr>board = tick_all Board_init White True, cursor_row = 0, cursor_col = 0,
      white_birth_queue = birth_queue_seed, black_birth_queue = birth_queue_seed,
      selected_piece = None, current_turn = White, recent_moves_str = [],
      game_over_message = None\<rparr>"

text \<open>\<^verbatim>\<open>Engine.move_is_valid\<close>: on acceptance the move string is appended to the log.\<close>

definition engine_move_is_valid ::
  "engine \<Rightarrow> piece \<Rightarrow> piece \<Rightarrow> stockfish option \<Rightarrow> exn + engine \<times> bool" where
  "engine_move_is_valid e source dest sf =
     (case py_getitem col_labels (col source) of
        Inl x \<Rightarrow> Inl x
      | Inr source_col \<Rightarrow>
     (case py_getitem col_labels (col dest) of
        Inl x \<Rightarrow> Inl x
      | Inr dest_col \<Rightarrow>
          (let source_row = row source + 1;
               dest_row = row dest + 1;
               move_str = str_piece source @ source_col @ str_int source_row @ ''->''
                            @ str_piece dest @ dest_col @ str_int dest_row;
               logged = e\<lparr>recent_moves_str := recent_moves_str e @ [move_str]\<rparr>
           in if move_is_valid source dest then
                (case sf of
                   None \<Rightarrow> Inr (logged, True)
                 | Some s \<Rightarrow>
                     (case is_move_correct s (get_fen_position (board e) (current_turn e))
                             (source_col @ str_int source_row @ dest_col @ str_int dest_row) of
                        None \<Rightarrow> Inr (logged, True)
                      | Some True \<Rightarrow> Inr (logged, True)
                      | Some False \<Rightarrow> Inr (e, False)))
              else Inr (e, False))))"

text \<open>\<^verbatim>\<open>int(c)\<close> for a one-character string.\<close>

definition py_int_char :: "char \<Rightarrow> int option" where
  "py_int_char c =
     (if 48 \<le> (of_char c :: nat) \<and> (of_char c :: nat) \<le> 57 then Some (of_char c - 48) else None)"

text \<open>The branch \<^verbatim>\<open>key == "stockfish"\<close>: every exception is swallowed where it happens, so
  what was assigned before it stays assigned.\<close>

definition stockfish_key :: "engine \<Rightarrow> stockfish option \<Rightarrow> engine \<times> key" where
  "stockfish_key e sf =
     (case sf of
        None \<Rightarrow> (e, Key_stockfish)
      | Some s \<Rightarrow>
          (case get_best_move s (get_fen_position (board e) (current_turn e)) of
             None \<Rightarrow> (e, Key_stockfish)
           | Some None \<Rightarrow> (e, Key_stockfish)
           | Some (Some move) \<Rightarrow>
               if length move < 2 then (e, Key_stockfish)
               else
                 (case py_int_char (move ! 1) of
                    None \<Rightarrow> (e, Key_stockfish)
                  | Some d1 \<Rightarrow>
                      (case get_piece (board e) (d1 - 1) (of_char (move ! 0) - 97) of
                         Inl x \<Rightarrow> (e, Key_stockfish)
                       | Inr p \<Rightarrow>
                           (let e1 = e\<lparr>selected_piece := Some p\<rparr>
                            in if length move < 4 then (e1, Key_stockfish)
                               else
                                 (case py_int_char (move ! 3) of
                                    None \<Rightarrow> (e1, Key_stockfish)
                                  | Some d3 \<Rightarrow>
                                      (e1\<lparr>cursor_row := d3 - 1,
                                          cursor_col := of_char (move ! 2) - 97\<rparr>,
                                       Key_enter)))))))"

text \<open>The birth pass. One birth moves the front of the queue to its back:
  \<^verbatim>\<open>next_piece = queue.pop(0)\<close>, then \<^verbatim>\<open>queue.append(next_piece)\<close>.\<close>

definition birth_counter_of :: "side \<Rightarrow> piece \<Rightarrow> int" where
  "birth_counter_of c p = (if c = White then birth_counter_white p else birth_counter_black p)"

definition scan_squares :: "side \<Rightarrow> (int \<times> int) list" where
  "scan_squares c =
     concat (map (\<lambda>i. map (\<lambda>j. (i, j)) [0..7]) (if c = White then [0..7] else rev [0..7]))"

fun birth_scan ::
  "board \<Rightarrow> string list \<Rightarrow> side \<Rightarrow> (int \<times> int) list \<Rightarrow> exn + board \<times> string list" where
  "birth_scan b q c [] = Inr (b, q)"
| "birth_scan b q c ((i, j) # sqs) =
     (case get_piece b i j of
        Inl x \<Rightarrow> Inl x
      | Inr p \<Rightarrow>
          if side p = EmptySide \<and> birth_counter_of c p = 3 then
            (case q of
               [] \<Rightarrow> Inl (IndexError ''pop from empty list'')
             | next_piece # rest \<Rightarrow>
                 (case set_new_piece b i j next_piece c of
                    Inl x \<Rightarrow> Inl x
                  | Inr b' \<Rightarrow> birth_scan b' (rest @ [next_piece]) c sqs))
          else birth_scan b q c sqs)"

definition birth_pass :: "engine \<Rightarrow> exn + engine" where
  "birth_pass e =
     (if current_turn e = White then
        (case birth_scan (board e) (white_birth_queue e) White (scan_squares White) of
           Inl x \<Rightarrow> Inl x
         | Inr (b, q) \<Rightarrow> Inr (e\<lparr>board := b, white_birth_queue := q\<rparr>))
      else if current_turn e = Black then
        (case birth_scan (board e) (black_birth_queue e) Black (scan_squares Black) of
           Inl x \<Rightarrow> Inl x
         | Inr (b, q) \<Rightarrow> Inr (e\<lparr>board := b, black_birth_queue := q\<rparr>))
      else Inr e)"

text \<open>The death pass over the list \<^verbatim>\<open>get_pieces()\<close> returned before the first kill. It
  stops at the first exception, with the kills made so far in place.\<close>

fun death_pass :: "board \<Rightarrow> piece list \<Rightarrow> side \<Rightarrow> board \<times> exn option" where
  "death_pass b [] turn = (b, None)"
| "death_pass b (p # ps) turn =
     (if death_counter p = 4 then
        (case kill_piece b p turn of
           (b', Some x) \<Rightarrow> (b', Some x)
         | (b', None) \<Rightarrow> death_pass b' ps turn)
      else death_pass b ps turn)"

text \<open>What \<^verbatim>\<open>update_state\<close> does once \<^verbatim>\<open>move_piece\<close> has returned.\<close>

definition resolve_turn :: "engine \<Rightarrow> exn + engine \<times> bool" where
  "resolve_turn e0 =
     (let e1 = e0\<lparr>selected_piece := None\<rparr>;
          e2 = e1\<lparr>current_turn := (if current_turn e1 = White then Black else White)\<rparr>;
          e3 = e2\<lparr>board := tick_all (board e2) (current_turn e2) True\<rparr>
      in case birth_pass e3 of
           Inl x \<Rightarrow> Inl x
         | Inr e4 \<Rightarrow>
             (case death_pass (board e4) (get_pieces (board e4)) (current_turn e4) of
                (b, Some x) \<Rightarrow>
                  Inr (e4\<lparr>board := b, game_over_message := Some (str_exn x)\<rparr>, False)
              | (b, None) \<Rightarrow>
                  Inr (e4\<lparr>board := tick_all b (current_turn e4) False\<rparr>, True)))"

text \<open>The branch \<^verbatim>\<open>key == "enter"\<close>.\<close>

definition enter_key :: "engine \<Rightarrow> stockfish option \<Rightarrow> exn + engine \<times> bool" where
  "enter_key e sf =
     (case get_piece (board e) (cursor_row e) (cursor_col e) of
        Inl x \<Rightarrow> Inl x
      | Inr at_cursor \<Rightarrow>
          (case selected_piece e of
             None \<Rightarrow>
               if side at_cursor = current_turn e
               then Inr (e\<lparr>selected_piece := Some at_cursor\<rparr>, False)
               else Inr (e, False)
           | Some source \<Rightarrow>
               (case engine_move_is_valid e source at_cursor sf of
                  Inl x \<Rightarrow> Inl x
                | Inr (e1, accepted) \<Rightarrow>
                    if \<not> accepted then Inr (e1, False)
                    else
                      (case move_piece (board e1) source at_cursor of
                         (b, Inl x) \<Rightarrow>
                           Inr (e1\<lparr>board := b, game_over_message := Some (str_exn x)\<rparr>, False)
                       | (b, Inr moved) \<Rightarrow> resolve_turn (e1\<lparr>board := b\<rparr>)))))"

text \<open>\<^verbatim>\<open>Engine.update_state\<close>. \<open>Inl\<close> is an exception that leaves the method; \<open>Inr\<close> is the
  engine after the call with the returned flag.\<close>

definition update_state :: "engine \<Rightarrow> key \<Rightarrow> stockfish option \<Rightarrow> exn + engine \<times> bool" where
  "update_state e k sf =
     (case (case k of
              Key_up \<Rightarrow> (e\<lparr>cursor_row := (cursor_row e - 1) mod 8\<rparr>, k)
            | Key_down \<Rightarrow> (e\<lparr>cursor_row := (cursor_row e + 1) mod 8\<rparr>, k)
            | Key_left \<Rightarrow> (e\<lparr>cursor_col := (cursor_col e - 1) mod 8\<rparr>, k)
            | Key_right \<Rightarrow> (e\<lparr>cursor_col := (cursor_col e + 1) mod 8\<rparr>, k)
            | Key_stockfish \<Rightarrow> stockfish_key e sf
            | Key_enter \<Rightarrow> (e, k)
            | Key_other \<Rightarrow> (e, k)) of
        (e1, k1) \<Rightarrow>
          if k1 = Key_enter then enter_key e1 sf
          else if k1 = Key_other then Inr (e1\<lparr>selected_piece := None\<rparr>, False)
          else Inr (e1, False))"

text \<open>Playing a list of keys, stopping at an exception.\<close>

fun play :: "engine \<Rightarrow> stockfish option \<Rightarrow> key list \<Rightarrow> exn + engine" where
  "play e sf [] = Inr e"
| "play e sf (k # ks) =
     (case update_state e k sf of Inl x \<Rightarrow> Inl x | Inr (e', changed) \<Rightarrow> play e' sf ks)"

subsection \<open>Engines a game can reach\<close>

text \<open>Any key, and any answer of the advisory engine, at every step. A call of
  \<^verbatim>\<open>update_state\<close> that raises ends the program. Undo and redo in \<^verbatim>\<open>main_loop\<close> put
  back an engine that was reached before.\<close>

inductive reachable :: "engine \<Rightarrow> bool" where
  init: "reachable Engine_init"
| step: "reachable e \<Longrightarrow> update_state e k sf = Inr (e', changed) \<Longrightarrow> reachable e'"

definition king_count :: "board \<Rightarrow> side \<Rightarrow> nat" where
  "king_count b s = length (filter (\<lambda>p. kind p = King \<and> side p = s) (get_pieces b))"

definition board_shape :: "board \<Rightarrow> bool" where
  "board_shape b = (length b = 8 \<and> (\<forall>line \<in> set b. length line = 8))"

definition own_coordinates :: "board \<Rightarrow> bool" where
  "own_coordinates b =
     (\<forall>(i, j) \<in> set (board_squares b). row (b ! i ! j) = int i \<and> col (b ! i ! j) = int j)"

definition on_board :: "board \<Rightarrow> piece \<Rightarrow> bool" where
  "on_board b p =
     (0 \<le> row p \<and> row p < 8 \<and> 0 \<le> col p \<and> col p < 8 \<and> b ! nat (row p) ! nat (col p) = p)"

definition one_king :: "board \<Rightarrow> side \<Rightarrow> bool" where
  "one_king b s =
     (\<forall>(i, j) \<in> set (board_squares b). \<forall>(i', j') \<in> set (board_squares b).
        kind (b ! i ! j) = King \<and> side (b ! i ! j) = s \<and>
        kind (b ! i' ! j') = King \<and> side (b ! i' ! j') = s \<longrightarrow> i = i' \<and> j = j')"

definition seed_rotation :: "string list \<Rightarrow> bool" where
  "seed_rotation q = (q \<in> set (map (\<lambda>n. rotate n birth_queue_seed) [0..<14]))"

definition engine_inv :: "engine \<Rightarrow> bool" where
  "engine_inv e =
     (board_shape (board e) \<and> own_coordinates (board e)
      \<and> (case selected_piece e of None \<Rightarrow> True | Some p \<Rightarrow> on_board (board e) p)
      \<and> seed_rotation (white_birth_queue e) \<and> seed_rotation (black_birth_queue e)
      \<and> one_king (board e) White \<and> one_king (board e) Black)"

subsection \<open>Consecutive births of one side\<close>

text \<open>The queue statements of \<open>n\<close> births in a row: the kinds popped, and the queue left.
  \<open>None\<close> is \<^verbatim>\<open>pop(0)\<close> raising on an empty queue.\<close>

fun births :: "nat \<Rightarrow> string list \<Rightarrow> (string list \<times> string list) option" where
  "births 0 q = Some ([], q)"
| "births (Suc n) [] = None"
| "births (Suc n) (next_piece # rest) =
     (case births n (rest @ [next_piece]) of
        None \<Rightarrow> None
      | Some (spawned, q') \<Rightarrow> Some (next_piece # spawned, q'))"

text \<open>The squares of a board on which the birth pass of colour \<open>c\<close> places a piece.\<close>

definition birth_due :: "board \<Rightarrow> side \<Rightarrow> int \<times> int \<Rightarrow> bool" where
  "birth_due b c sq =
     (case sq of (i, j) \<Rightarrow>
        side (b ! nat i ! nat j) = EmptySide \<and> birth_counter_of c (b ! nat i ! nat j) = 3)"

subsection \<open>Auxiliary notions of the proofs\<close>

text \<open>The board with the occupant of one square replaced.\<close>

definition put :: "board \<Rightarrow> nat \<Rightarrow> nat \<Rightarrow> piece \<Rightarrow> board" where
  "put b i j v = b[i := (b ! i)[j := v]]"

text \<open>What a tick never changes of a piece, and the same for a whole board.\<close>

definition ident :: "piece \<Rightarrow> kind \<times> side \<times> int \<times> int" where
  "ident p = (kind p, side p, row p, col p)"

definition idents :: "board \<Rightarrow> (kind \<times> side \<times> int \<times> int) list list" where
  "idents b = map (map ident) b"

text \<open>The part of the engine invariant that speaks of the board alone.\<close>

definition board_inv :: "board \<Rightarrow> bool" where
  "board_inv b = (board_shape b \<and> own_coordinates b \<and> one_king b White \<and> one_king b Black)"

text \<open>The squares of the board, as pairs of Python integers.\<close>

definition in_range :: "int \<times> int \<Rightarrow> bool" where
  "in_range sq = (case sq of (i, j) \<Rightarrow> 0 \<le> i \<and> i < 8 \<and> 0 \<le> j \<and> j < 8)"

subsection \<open>Sample positions\<close>

text \<open>The opening board with three empty squares whose white birth counter stands at 3.\<close>

definition due_board :: board where
  "due_board =
     (let b0 = Board_init;
          b1 = b0[2 := (b0 ! 2)[0 := (b0 ! 2 ! 0)\<lparr>birth_counter_white := 3\<rparr>]];
          b2 = b1[2 := (b1 ! 2)[1 := (b1 ! 2 ! 1)\<lparr>birth_counter_white := 3\<rparr>]]
      in b2[4 := (b2 ! 4)[5 := (b2 ! 4 ! 5)\<lparr>birth_counter_white := 3\<rparr>]])"

text \<open>The opening board with the white king's and a white pawn's death counter at 4.\<close>

definition stressed_board :: board where
  "stressed_board =
     (let b0 = Board_init;
          b1 = b0[0 := (b0 ! 0)[4 := (b0 ! 0 ! 4)\<lparr>death_counter := 4\<rparr>]]
      in b1[1 := (b1 ! 1)[0 := (b1 ! 1 ! 0)\<lparr>death_counter := 4\<rparr>]])"

text \<open>An engine at the start of White's turn whose board is \<open>due_board\<close>.\<close>

definition due_engine :: engine where
  "due_engine =
     \<lparr>board = due_board, cursor_row = 0, cursor_col = 0,
      white_birth_queue = birth_queue_seed, black_birth_queue = birth_queue_seed,
      selected_piece = None, current_turn = White, recent_moves_str = [],
      game_over_message = None\<rparr>"

text \<open>The opening board with the white birth counter at 3 on the eight squares of the
  third rank and on a4 to g4: fifteen squares.\<close>

definition crowded_board :: board where
  "crowded_board =
     map (map (\<lambda>p. if row p = 2 \<or> (row p = 3 \<and> col p < 7)
                     then p\<lparr>birth_counter_white := 3\<rparr> else p)) Board_init"

text \<open>An engine at the start of White's turn whose board is \<open>crowded_board\<close>.\<close>

definition crowded_engine :: engine where
  "crowded_engine =
     \<lparr>board = crowded_board, cursor_row = 0, cursor_col = 0,
      white_birth_queue = birth_queue_seed, black_birth_queue = birth_queue_seed,
      selected_piece = None, current_turn = White, recent_moves_str = [],
      game_over_message = None\<rparr>"

text \<open>A game of four moves without the advisory engine: the white rook goes from a1 to a5,
  the black rook from a8 to a6, then the white rook to b5 and the black rook to b6.\<close>

definition sample_game_keys :: "key list" where
  "sample_game_keys =
     [Key_enter, Key_down, Key_down, Key_down, Key_down, Key_enter,
      Key_down, Key_down, Key_down, Key_enter, Key_up, Key_up, Key_enter,
      Key_up, Key_enter, Key_right, Key_enter,
      Key_down, Key_left, Key_enter, Key_right, Key_enter]"

text \<open>The keys that select the rook on a1 and try to capture the king on e8.\<close>

definition capture_keys :: "key list" where
  "capture_keys =
     [Key_enter, Key_up, Key_right, Key_right, Key_right, Key_right, Key_enter]"

section \<open>Properties\<close>

subsection \<open>The counters of a tick\<close>

lemma count_side_filter: "count_side s ps = int (length (filter (\<lambda>q. side q = s) ps))"
  by (induction ps) simp_all

text \<open>
  Claim C2. An empty square ticked with \<open>update_counters\<close> set, for the turn of colour \<open>c\<close>:
  its birth counter of colour \<open>c\<close> goes up by one when exactly three of the neighbours
  handed to the tick are of colour \<open>c\<close>, and drops to 0 otherwise, whatever it was before;
  its birth counter of the other colour keeps its value.
\<close>

theorem tick_empty_birth_counter:
  assumes "side p = EmptySide" and "c = White \<or> c = Black"
  shows "birth_counter_of c (tick p nb c True) =
           (if length (filter (\<lambda>q. side q = c) nb) = 3 then birth_counter_of c p + 1 else 0)
         \<and> birth_counter_of (if c = White then Black else White) (tick p nb c True) =
             birth_counter_of (if c = White then Black else White) p"
  using assms by (auto simp: tick_def birth_counter_of_def count_side_filter Let_def)

theorem tick_empty_birth_counter_witness:
  "birth_counter_of White
     (tick (new_empty\<lparr>birth_counter_white := 2, birth_counter_black := 1\<rparr>)
        [new_piece Pawn White, new_piece Rook White, new_piece King White, new_piece Pawn Black]
        White True) = 3
   \<and> birth_counter_of Black
     (tick (new_empty\<lparr>birth_counter_white := 2, birth_counter_black := 1\<rparr>)
        [new_piece Pawn White, new_piece Rook White, new_piece King White, new_piece Pawn Black]
        White True) = 1
   \<and> birth_counter_of White
     (tick (new_empty\<lparr>birth_counter_white := 2, birth_counter_black := 1\<rparr>)
        [new_piece Pawn White, new_piece Rook White] White True) = 0"
  using tick_empty_birth_counter
          [of "new_empty\<lparr>birth_counter_white := 2, birth_counter_black := 1\<rparr>" White
              "[new_piece Pawn White, new_piece Rook White, new_piece King White,
                new_piece Pawn Black]"]
        tick_empty_birth_counter
          [of "new_empty\<lparr>birth_counter_white := 2, birth_counter_black := 1\<rparr>" White
              "[new_piece Pawn White, new_piece Rook White]"]
  by (simp add: new_empty_def new_piece_def birth_counter_of_def)

text \<open>
  Claim C3. An occupied square ticked with \<open>update_counters\<close> set. When its side is the
  side to move, only the neighbours of its own side are counted: fewer than two or more than
  three of them raise the death counter by one, two or three reset it to 0. When its side
  is not the side to move, its death counter and both birth counters keep their values.
\<close>

theorem tick_occupied_death_counter:
  assumes "side p \<noteq> EmptySide"
  shows "(side p = turn \<longrightarrow>
            death_counter (tick p nb turn True) =
              (if length (filter (\<lambda>q. side q = side p) nb) < 2
                  \<or> length (filter (\<lambda>q. side q = side p) nb) > 3
               then death_counter p + 1 else 0))
         \<and> (side p \<noteq> turn \<longrightarrow>
            death_counter (tick p nb turn True) = death_counter p
            \<and> birth_counter_white (tick p nb turn True) = birth_counter_white p
            \<and> birth_counter_black (tick p nb turn True) = birth_counter_black p)"
  using assms by (auto simp: tick_def count_side_filter Let_def)

theorem tick_occupied_death_counter_witness:
  "death_counter (tick ((new_piece Pawn White)\<lparr>death_counter := 2\<rparr>)
       [new_piece Pawn White, new_piece Rook Black, new_piece King Black] White True) = 3
   \<and> death_counter (tick ((new_piece Pawn White)\<lparr>death_counter := 2\<rparr>)
       [new_piece Pawn White, new_piece Rook White, new_piece King Black] White True) = 0
   \<and> death_counter (tick ((new_piece Pawn White)\<lparr>death_counter := 2\<rparr>)
       [new_piece Pawn White, new_piece Rook Black, new_piece King Black] Black True) = 2"
  using tick_occupied_death_counter
          [of "(new_piece Pawn White)\<lparr>death_counter := 2\<rparr>" White
              "[new_piece Pawn White, new_piece Rook Black, new_piece King Black]"]
        tick_occupied_death_counter
          [of "(new_piece Pawn White)\<lparr>death_counter := 2\<rparr>" White
              "[new_piece Pawn White, new_piece Rook White, new_piece King Black]"]
        tick_occupied_death_counter
          [of "(new_piece Pawn White)\<lparr>death_counter := 2\<rparr>" Black
              "[new_piece Pawn White, new_piece Rook Black, new_piece King Black]"]
  by (simp add: new_piece_def)

subsection \<open>Board operations\<close>


lemma board_squares_iff: "(i, j) \<in> set (board_squares b) \<longleftrightarrow> i < length b \<and> j < length (b ! i)"
  by (force simp: board_squares_def)

lemma shape_length: "board_shape b \<Longrightarrow> length b = 8"
  by (simp add: board_shape_def)

lemma shape_row: "board_shape b \<Longrightarrow> i < 8 \<Longrightarrow> length (b ! i) = 8"
  by (simp add: board_shape_def)

lemma board_squares_shape:
  "board_shape b \<Longrightarrow> (i, j) \<in> set (board_squares b) \<longleftrightarrow> i < 8 \<and> j < 8"
  by (auto simp: board_squares_iff shape_length shape_row)

lemma put_shape: "board_shape b \<Longrightarrow> i < 8 \<Longrightarrow> board_shape (put b i j v)"
  unfolding board_shape_def put_def
  by (auto dest!: subsetD [OF set_update_subset_insert])

lemma put_nth:
  "board_shape b \<Longrightarrow> i < 8 \<Longrightarrow> j < 8 \<Longrightarrow>
     put b i j v ! i' ! j' = (if i' = i \<and> j' = j then v else b ! i' ! j')"
  by (auto simp: put_def shape_length shape_row nth_list_update)

lemma py_index_in: "0 \<le> r \<Longrightarrow> r < int (length xs) \<Longrightarrow> py_index xs r = Some (nat r)"
  by (simp add: py_index_def)

lemma get_piece_in:
  "board_shape b \<Longrightarrow> 0 \<le> r \<Longrightarrow> r < 8 \<Longrightarrow> 0 \<le> c \<Longrightarrow> c < 8 \<Longrightarrow>
     get_piece b r c = Inr (b ! nat r ! nat c)"
  by (simp add: get_piece_def py_getitem_def py_index_in shape_length shape_row)

lemma board_set_in:
  "board_shape b \<Longrightarrow> 0 \<le> r \<Longrightarrow> r < 8 \<Longrightarrow> 0 \<le> c \<Longrightarrow> c < 8 \<Longrightarrow>
     board_set b r c v = Inr (put b (nat r) (nat c) v)"
  by (simp add: board_set_def py_setitem_def py_index_in shape_length shape_row put_def)

lemma square_index_in:
  "board_shape b \<Longrightarrow> 0 \<le> r \<Longrightarrow> r < 8 \<Longrightarrow> 0 \<le> c \<Longrightarrow> c < 8 \<Longrightarrow>
     square_index b r c = Some (nat r, nat c)"
  by (simp add: square_index_def py_index_in shape_length shape_row)

lemma valid_distinct_squares:
  assumes "on_board b source" "on_board b dest" "move_is_valid source dest"
  shows "\<not> (nat (row dest) = nat (row source) \<and> nat (col dest) = nat (col source))"
proof
  assume "nat (row dest) = nat (row source) \<and> nat (col dest) = nat (col source)"
  with assms(1,2) have "source = dest" by (auto simp: on_board_def)
  with assms(3) show False by (simp add: move_is_valid_def split: if_splits)
qed

lemma perish_cases:
  "perish p conway = (if kind p = King then
      Inl (Exception ((if side p = Black then ''Black'' else ''White'')
          @ (if conway then '' king perished, '' else '' king was captured, '')
          @ (if side p = Black then ''white'' else ''black'') @ '' wins!'')) else Inr ())"
  by (simp add: perish_def Let_def)

lemma move_piece_result:
  assumes "board_shape b" "on_board b source" "on_board b dest" "move_is_valid source dest"
  shows "move_piece b source dest =
     (if kind dest = King
      then (b, Inl (Exception ((if side dest = Black then ''Black'' else ''White'')
              @ '' king was captured, '' @ (if side dest = Black then ''white'' else ''black'')
              @ '' wins!'')))
      else (put (put (put b (nat (row dest)) (nat (col dest)) source)
                  (nat (row source)) (nat (col source))
                  (set_position new_empty (row source) (col source)))
              (nat (row dest)) (nat (col dest)) (set_position source (row dest) (col dest)),
            Inr True))"
proof -
  from assms(2) have s: "0 \<le> row source" "row source < 8" "0 \<le> col source" "col source < 8"
    by (simp_all add: on_board_def)
  from assms(3) have d: "0 \<le> row dest" "row dest < 8" "0 \<le> col dest" "col dest < 8"
    and occ: "b ! nat (row dest) ! nat (col dest) = dest"
    by (simp_all add: on_board_def)
  have sh1: "board_shape (put b (nat (row dest)) (nat (col dest)) source)"
    using assms(1) d by (simp add: put_shape)
  have sh2: "board_shape (put (put b (nat (row dest)) (nat (col dest)) source)
                  (nat (row source)) (nat (col source))
                  (set_position new_empty (row source) (col source)))"
    using sh1 s by (simp add: put_shape)
  have ne: "square_index b (row dest) (col dest) \<noteq> square_index b (row source) (col source)"
    using valid_distinct_squares [OF assms(2,3,4)] assms(1) s d
    by (simp add: square_index_in)
  show ?thesis
    using assms(1,4) s d occ sh1 sh2 ne
    by (simp add: move_piece_def get_piece_in board_set_in perish_cases)
qed


lemma in_pieces_shape:
  assumes "board_shape b" "x \<in> set (get_pieces b)"
  shows "\<exists>i<8. \<exists>j<8. x = b ! i ! j"
proof -
  from assms(2) obtain line where l: "line \<in> set b" "x \<in> set line"
    by (auto simp: get_pieces_def)
  then obtain i where i: "i < length b" "line = b ! i" by (auto simp: in_set_conv_nth)
  from l(2) obtain j where j: "j < length line" "x = line ! j" by (auto simp: in_set_conv_nth)
  from i j assms(1) show ?thesis by (auto simp: shape_length shape_row)
qed

lemma own_coordinates_nth:
  "board_shape b \<Longrightarrow> own_coordinates b \<Longrightarrow> i < 8 \<Longrightarrow> j < 8 \<Longrightarrow>
     row (b ! i ! j) = int i \<and> col (b ! i ! j) = int j"
  unfolding own_coordinates_def by (auto simp: board_squares_shape)

text \<open>
  Claim C7. \<^verbatim>\<open>Board.move_piece\<close> on a move that \<^verbatim>\<open>move_is_valid\<close> accepts, between two
  pieces that stand on the board. If the destination holds a King, the call raises the
  capture message and the board is the one before the call, square by square. Otherwise
  the call returns \<^verbatim>\<open>True\<close>; the moving piece stands on the destination square with the
  destination's coordinates, the source square holds a new Empty with the source's
  coordinates, every other square is unchanged, and the destination's former occupant is
  on no square.
\<close>

theorem move_piece_capture_or_relocate:
  assumes "board_shape b" and "own_coordinates b" and "on_board b source" and "on_board b dest"
    and "move_is_valid source dest"
  shows "(kind dest = King \<longrightarrow>
            move_piece b source dest =
              (b, Inl (Exception ((if side dest = Black then ''Black'' else ''White'')
                    @ '' king was captured, ''
                    @ (if side dest = Black then ''white'' else ''black'') @ '' wins!''))))
         \<and> (kind dest \<noteq> King \<longrightarrow>
              (\<exists>b'. move_piece b source dest = (b', Inr True)
                 \<and> board_shape b'
                 \<and> b' ! nat (row dest) ! nat (col dest) = set_position source (row dest) (col dest)
                 \<and> b' ! nat (row source) ! nat (col source) =
                     set_position new_empty (row source) (col source)
                 \<and> (\<forall>i<8. \<forall>j<8.
                       \<not> (i = nat (row dest) \<and> j = nat (col dest))
                       \<and> \<not> (i = nat (row source) \<and> j = nat (col source))
                       \<longrightarrow> b' ! i ! j = b ! i ! j)
                 \<and> dest \<notin> set (get_pieces b')))"
proof -
  let ?dr = "nat (row dest)" and ?dc = "nat (col dest)"
  let ?sr = "nat (row source)" and ?sc = "nat (col source)"
  let ?b1 = "put b ?dr ?dc source"
  let ?b2 = "put ?b1 ?sr ?sc (set_position new_empty (row source) (col source))"
  let ?b3 = "put ?b2 ?dr ?dc (set_position source (row dest) (col dest))"
  from assms(3) have s: "?sr < 8" "?sc < 8" "int ?sr = row source" "int ?sc = col source"
    by (auto simp: on_board_def)
  from assms(4) have d: "?dr < 8" "?dc < 8" "int ?dr = row dest" "int ?dc = col dest"
    by (auto simp: on_board_def)
  have ne: "\<not> (?dr = ?sr \<and> ?dc = ?sc)"
    by (rule valid_distinct_squares [OF assms(3,4,5)])
  have sides: "side source \<noteq> side dest"
    using assms(5) by (auto simp: move_is_valid_def split: if_splits)
  have sh1: "board_shape ?b1" using assms(1) d by (simp add: put_shape)
  have sh2: "board_shape ?b2" using sh1 s by (simp add: put_shape)
  have sh3: "board_shape ?b3" using sh2 d by (simp add: put_shape)
  have nth3: "?b3 ! i ! j =
      (if i = ?dr \<and> j = ?dc then set_position source (row dest) (col dest)
       else if i = ?sr \<and> j = ?sc then set_position new_empty (row source) (col source)
       else b ! i ! j)" for i j
    using assms(1) sh1 sh2 s d by (simp add: put_nth)
  have gone: "dest \<notin> set (get_pieces ?b3)"
  proof
    assume "dest \<in> set (get_pieces ?b3)"
    from in_pieces_shape [OF sh3 this] obtain i j
      where ij: "i < 8" "j < 8" "dest = ?b3 ! i ! j" by blast
    show False
    proof (cases "i = ?dr \<and> j = ?dc")
      case True
      then have "?b3 ! i ! j = set_position source (row dest) (col dest)"
        by (simp add: nth3)
      then have "side (?b3 ! i ! j) = side source" by (simp add: set_position_def)
      with ij(3) sides show False by simp
    next
      case False
      show False
      proof (cases "i = ?sr \<and> j = ?sc")
        case True
        with False have "?b3 ! i ! j = set_position new_empty (row source) (col source)"
          by (auto simp: nth3)
        then have "row (?b3 ! i ! j) = row source \<and> col (?b3 ! i ! j) = col source"
          by (simp add: set_position_def)
        with ij(3) have "row dest = row source \<and> col dest = col source" by simp
        with ne show False by simp
      next
        case False
        with \<open>\<not> (i = ?dr \<and> j = ?dc)\<close> have "?b3 ! i ! j = b ! i ! j"
          by (auto simp: nth3)
        with ij(3) have "dest = b ! i ! j" by simp
        with own_coordinates_nth [OF assms(1,2) ij(1,2)]
        have "row dest = int i \<and> col dest = int j" by simp
        with \<open>\<not> (i = ?dr \<and> j = ?dc)\<close> show False by auto
      qed
    qed
  qed
  have res: "move_piece b source dest =
     (if kind dest = King
      then (b, Inl (Exception ((if side dest = Black then ''Black'' else ''White'')
              @ '' king was captured, '' @ (if side dest = Black then ''white'' else ''black'')
              @ '' wins!'')))
      else (?b3, Inr True))"
    by (rule move_piece_result [OF assms(1,3,4,5)])
  show ?thesis
  proof (intro conjI impI)
    assume "kind dest = King"
    with res show "move_piece b source dest =
              (b, Inl (Exception ((if side dest = Black then ''Black'' else ''White'')
                    @ '' king was captured, ''
                    @ (if side dest = Black then ''white'' else ''black'') @ '' wins!'')))"
      by simp
  next
    assume nk: "kind dest \<noteq> King"
    show "\<exists>b'. move_piece b source dest = (b', Inr True)
                 \<and> board_shape b'
                 \<and> b' ! nat (row dest) ! nat (col dest) = set_position source (row dest) (col dest)
                 \<and> b' ! nat (row source) ! nat (col source) =
                     set_position new_empty (row source) (col source)
                 \<and> (\<forall>i<8. \<forall>j<8.
                       \<not> (i = nat (row dest) \<and> j = nat (col dest))
                       \<and> \<not> (i = nat (row source) \<and> j = nat (col source))
                       \<longrightarrow> b' ! i ! j = b ! i ! j)
                 \<and> dest \<notin> set (get_pieces b')"
      using res nk sh3 nth3 ne gone by (intro exI [of _ ?b3]) auto
  qed
qed

text \<open>
  Claim C10. A move that is accepted and carried out leaves the moved piece's
  \<open>death_counter\<close>, \<open>birth_counter_white\<close> and \<open>birth_counter_black\<close> as they were: the
  piece on the destination square is the source piece with only \<open>row\<close> and \<open>col\<close> replaced.
\<close>

theorem move_piece_keeps_counters:
  assumes "board_shape b" and "on_board b source" and "on_board b dest"
    and "move_is_valid source dest" and "kind dest \<noteq> King"
  shows "snd (move_piece b source dest) = Inr True
         \<and> death_counter (fst (move_piece b source dest) ! nat (row dest) ! nat (col dest)) =
             death_counter source
         \<and> birth_counter_white (fst (move_piece b source dest) ! nat (row dest) ! nat (col dest)) =
             birth_counter_white source
         \<and> birth_counter_black (fst (move_piece b source dest) ! nat (row dest) ! nat (col dest)) =
             birth_counter_black source
         \<and> fst (move_piece b source dest) ! nat (row dest) ! nat (col dest) =
             source\<lparr>row := row dest, col := col dest\<rparr>"
proof -
  from assms(2) have s: "nat (row source) < 8" "nat (col source) < 8"
    by (auto simp: on_board_def)
  from assms(3) have d: "nat (row dest) < 8" "nat (col dest) < 8"
    by (auto simp: on_board_def)
  have sh1: "board_shape (put b (nat (row dest)) (nat (col dest)) source)"
    using assms(1) d by (simp add: put_shape)
  have sh2: "board_shape (put (put b (nat (row dest)) (nat (col dest)) source)
      (nat (row source)) (nat (col source)) (set_position new_empty (row source) (col source)))"
    using sh1 s by (simp add: put_shape)
  show ?thesis
    using move_piece_result [OF assms(1,2,3,4)] assms(5) sh2 d
    by (simp add: put_nth set_position_def)
qed

text \<open>
  Claim C6, as amended. \<^verbatim>\<open>Board.kill_piece\<close>. If the piece's side is not the acting
  side, the board is unchanged and nothing is raised. If it is, the piece stands on the
  board and is not a King, the piece's square holds a new Empty afterwards, the other
  squares are unchanged and nothing is raised. If it is, the piece stands on the board and
  is a King, the call raises the population message and the board is unchanged: the King
  is still on its square.
\<close>

theorem kill_piece_cases:
  "(side p \<noteq> turn \<longrightarrow> kill_piece b p turn = (b, None))
   \<and> (board_shape b \<and> on_board b p \<and> side p = turn \<and> kind p \<noteq> King \<longrightarrow>
        (\<exists>b'. kill_piece b p turn = (b', None)
           \<and> b' ! nat (row p) ! nat (col p) = set_position new_empty (row p) (col p)
           \<and> side (b' ! nat (row p) ! nat (col p)) = EmptySide
           \<and> (\<forall>i<8. \<forall>j<8. \<not> (i = nat (row p) \<and> j = nat (col p))
                 \<longrightarrow> b' ! i ! j = b ! i ! j)))
   \<and> (board_shape b \<and> on_board b p \<and> side p = turn \<and> kind p = King \<longrightarrow>
        kill_piece b p turn =
          (b, Some (Exception ((if side p = Black then ''Black'' else ''White'')
              @ '' king perished, ''
              @ (if side p = Black then ''white'' else ''black'') @ '' wins!''))))"
proof (intro conjI impI)
  assume "side p \<noteq> turn"
  then show "kill_piece b p turn = (b, None)" by (simp add: kill_piece_def)
next
  assume a: "board_shape b \<and> on_board b p \<and> side p = turn \<and> kind p \<noteq> King"
  then have r: "0 \<le> row p" "row p < 8" "0 \<le> col p" "col p < 8"
    and occ: "b ! nat (row p) ! nat (col p) = p"
    by (simp_all add: on_board_def)
  have n: "nat (row p) < 8" "nat (col p) < 8" using r by auto
  show "\<exists>b'. kill_piece b p turn = (b', None)
           \<and> b' ! nat (row p) ! nat (col p) = set_position new_empty (row p) (col p)
           \<and> side (b' ! nat (row p) ! nat (col p)) = EmptySide
           \<and> (\<forall>i<8. \<forall>j<8. \<not> (i = nat (row p) \<and> j = nat (col p))
                 \<longrightarrow> b' ! i ! j = b ! i ! j)"
    using a r occ n
    by (auto simp: kill_piece_def get_piece_in board_set_in perish_cases put_nth
        set_position_def new_empty_def new_piece_def)
next
  assume a: "board_shape b \<and> on_board b p \<and> side p = turn \<and> kind p = King"
  then have r: "0 \<le> row p" "row p < 8" "0 \<le> col p" "col p < 8"
    and occ: "b ! nat (row p) ! nat (col p) = p"
    by (simp_all add: on_board_def)
  show "kill_piece b p turn =
          (b, Some (Exception ((if side p = Black then ''Black'' else ''White'')
              @ '' king perished, ''
              @ (if side p = Black then ''white'' else ''black'') @ '' wins!'')))"
    using a r occ
    by (simp add: kill_piece_def get_piece_in perish_cases)
qed

lemma Board_init_shape: "board_shape Board_init" by code_simp
lemma Board_init_own: "own_coordinates Board_init" by code_simp
lemma stressed_shape: "board_shape stressed_board" by code_simp
lemma stressed_own: "own_coordinates stressed_board" by code_simp


theorem move_piece_capture_or_relocate_witness:
  "move_piece Board_init (Board_init ! 0 ! 0) (Board_init ! 7 ! 4) =
     (Board_init, Inl (Exception ''Black king was captured, white wins!''))
   \<and> (\<exists>b'. move_piece Board_init (Board_init ! 0 ! 0) (Board_init ! 7 ! 3) = (b', Inr True)
         \<and> b' ! 7 ! 3 = set_position (Board_init ! 0 ! 0) 7 3
         \<and> b' ! 0 ! 0 = set_position new_empty 0 0
         \<and> Board_init ! 7 ! 3 \<notin> set (get_pieces b'))"
proof -
  have src: "on_board Board_init (Board_init ! 0 ! 0)" by code_simp
  have k: "on_board Board_init (Board_init ! 7 ! 4)" by code_simp
  have q: "on_board Board_init (Board_init ! 7 ! 3)" by code_simp
  have vk: "move_is_valid (Board_init ! 0 ! 0) (Board_init ! 7 ! 4)" by code_simp
  have vq: "move_is_valid (Board_init ! 0 ! 0) (Board_init ! 7 ! 3)" by code_simp
  have fk: "kind (Board_init ! 7 ! 4) = King" "side (Board_init ! 7 ! 4) = Black"
    by code_simp+
  have fq: "kind (Board_init ! 7 ! 3) \<noteq> King" "row (Board_init ! 7 ! 3) = 7"
    "col (Board_init ! 7 ! 3) = 3" "row (Board_init ! 0 ! 0) = 0" "col (Board_init ! 0 ! 0) = 0"
    by code_simp+
  from move_piece_capture_or_relocate [OF Board_init_shape Board_init_own src k vk] fk
  have A: "move_piece Board_init (Board_init ! 0 ! 0) (Board_init ! 7 ! 4) =
     (Board_init, Inl (Exception ''Black king was captured, white wins!''))"
    by simp
  from move_piece_capture_or_relocate [OF Board_init_shape Board_init_own src q vq] fq
  have B: "\<exists>b'. move_piece Board_init (Board_init ! 0 ! 0) (Board_init ! 7 ! 3) = (b', Inr True)
         \<and> b' ! 7 ! 3 = set_position (Board_init ! 0 ! 0) 7 3
         \<and> b' ! 0 ! 0 = set_position new_empty 0 0
         \<and> Board_init ! 7 ! 3 \<notin> set (get_pieces b')"
    by auto
  from A B show ?thesis by simp
qed

theorem move_piece_keeps_counters_witness:
  "snd (move_piece stressed_board (stressed_board ! 1 ! 0) (stressed_board ! 2 ! 0)) = Inr True
   \<and> death_counter
        (fst (move_piece stressed_board (stressed_board ! 1 ! 0) (stressed_board ! 2 ! 0)) ! 2 ! 0) = 4
   \<and> birth_counter_white
        (fst (move_piece stressed_board (stressed_board ! 1 ! 0) (stressed_board ! 2 ! 0)) ! 2 ! 0) = 0"
proof -
  have src: "on_board stressed_board (stressed_board ! 1 ! 0)" by code_simp
  have dst: "on_board stressed_board (stressed_board ! 2 ! 0)" by code_simp
  have v: "move_is_valid (stressed_board ! 1 ! 0) (stressed_board ! 2 ! 0)" by code_simp
  have f: "kind (stressed_board ! 2 ! 0) \<noteq> King" "row (stressed_board ! 2 ! 0) = 2"
    "col (stressed_board ! 2 ! 0) = 0" "death_counter (stressed_board ! 1 ! 0) = 4"
    "birth_counter_white (stressed_board ! 1 ! 0) = 0"
    by code_simp+
  from move_piece_keeps_counters [OF stressed_shape src dst v f(1)] f show ?thesis
    by simp
qed

theorem kill_piece_cases_witness:
  "kill_piece stressed_board (stressed_board ! 1 ! 0) Black = (stressed_board, None)
   \<and> (\<exists>b'. kill_piece stressed_board (stressed_board ! 1 ! 0) White = (b', None)
         \<and> b' ! 1 ! 0 = set_position new_empty 1 0)
   \<and> kill_piece stressed_board (stressed_board ! 0 ! 4) White =
       (stressed_board, Some (Exception ''White king perished, black wins!''))"
proof -
  have p: "on_board stressed_board (stressed_board ! 1 ! 0)" by code_simp
  have k: "on_board stressed_board (stressed_board ! 0 ! 4)" by code_simp
  have f: "side (stressed_board ! 1 ! 0) = White" "kind (stressed_board ! 1 ! 0) \<noteq> King"
    "row (stressed_board ! 1 ! 0) = 1" "col (stressed_board ! 1 ! 0) = 0"
    "side (stressed_board ! 0 ! 4) = White" "kind (stressed_board ! 0 ! 4) = King"
    by code_simp+
  from kill_piece_cases [where b = stressed_board and p = "stressed_board ! 1 ! 0"
      and turn = Black] f
  have A: "kill_piece stressed_board (stressed_board ! 1 ! 0) Black = (stressed_board, None)"
    by simp
  from kill_piece_cases [where b = stressed_board and p = "stressed_board ! 1 ! 0"
      and turn = White] stressed_shape p f
  have B: "\<exists>b'. kill_piece stressed_board (stressed_board ! 1 ! 0) White = (b', None)
         \<and> b' ! 1 ! 0 = set_position new_empty 1 0"
    by auto
  from kill_piece_cases [where b = stressed_board and p = "stressed_board ! 0 ! 4"
      and turn = White] stressed_shape k f
  have C: "kill_piece stressed_board (stressed_board ! 0 ! 4) White =
       (stressed_board, Some (Exception ''White king perished, black wins!''))"
    by simp
  from A B C show ?thesis by simp
qed

text \<open>
  Claim C6 as stated fails for a King of the acting side: the call raises, and the King's
  square is not replaced with Empty.
\<close>

theorem kill_piece_king_stays:
  "side (stressed_board ! 0 ! 4) = White
   \<and> snd (kill_piece stressed_board (stressed_board ! 0 ! 4) White) =
       Some (Exception ''White king perished, black wins!'')
   \<and> kind (fst (kill_piece stressed_board (stressed_board ! 0 ! 4) White) ! 0 ! 4) = King
   \<and> side (fst (kill_piece stressed_board (stressed_board ! 0 ! 4) White) ! 0 ! 4) = White"
  by code_simp

subsection \<open>The birth pass\<close>

lemma set_new_piece_in:
  "board_shape b \<Longrightarrow> in_range (i, j) \<Longrightarrow> kind_of_letter l = Some K \<Longrightarrow>
     set_new_piece b i j l c = Inr (put b (nat i) (nat j) (set_position (new_piece K c) i j))"
  by (simp add: set_new_piece_def board_set_in in_range_def)

lemma birth_due_put:
  assumes "board_shape b" "in_range (i, j)" "list_all in_range sqs" "(i, j) \<notin> set sqs"
  shows "filter (birth_due (put b (nat i) (nat j) v) c) sqs = filter (birth_due b c) sqs"
proof (rule filter_cong [OF refl])
  fix sq assume m: "sq \<in> set sqs"
  obtain i' j' where sq: "sq = (i', j')" by (cases sq)
  from m assms(3) sq have r: "in_range (i', j')" by (auto simp: list_all_iff)
  from m assms(4) sq have "(i', j') \<noteq> (i, j)" by auto
  with r assms(2) have "\<not> (nat i' = nat i \<and> nat j' = nat j)"
    by (auto simp: in_range_def)
  with assms(1,2) have "put b (nat i) (nat j) v ! nat i' ! nat j' = b ! nat i' ! nat j'"
    by (auto simp: put_nth in_range_def)
  then show "birth_due (put b (nat i) (nat j) v) c sq = birth_due b c sq"
    by (simp add: birth_due_def sq)
qed

lemma rotate_Suc_rotate1: "rotate (Suc n) q = rotate n (rotate1 q)"
  by (simp add: rotate1_rotate_swap)

lemma birth_scan_result:
  assumes "distinct sqs" and "list_all in_range sqs"
    and "board_shape b" and "q \<noteq> []" and "\<forall>l\<in>set q. kind_of_letter l \<noteq> None"
  shows "\<exists>b'. birth_scan b q c sqs = Inr (b', rotate (length (filter (birth_due b c) sqs)) q)
        \<and> board_shape b'
        \<and> (\<forall>k<length (filter (birth_due b c) sqs).
              \<exists>K. kind_of_letter (q ! (k mod length q)) = Some K \<and>
                b' ! nat (fst (filter (birth_due b c) sqs ! k))
                   ! nat (snd (filter (birth_due b c) sqs ! k)) =
                set_position (new_piece K c) (fst (filter (birth_due b c) sqs ! k))
                   (snd (filter (birth_due b c) sqs ! k)))
        \<and> (\<forall>sq. in_range sq \<and> sq \<notin> set (filter (birth_due b c) sqs) \<longrightarrow>
              b' ! nat (fst sq) ! nat (snd sq) = b ! nat (fst sq) ! nat (snd sq))"
  using assms
proof (induction sqs arbitrary: b q)
  case Nil
  then show ?case by simp
next
  case (Cons sq sqs)
  obtain i j where sq: "sq = (i, j)" by (cases sq)
  from Cons.prems sq have r: "in_range (i, j)" and rs: "list_all in_range sqs"
    and d: "distinct sqs" and notin: "(i, j) \<notin> set sqs"
    by auto
  from r Cons.prems(3) have gp: "get_piece b i j = Inr (b ! nat i ! nat j)"
    by (simp add: get_piece_in in_range_def)
  show ?case
  proof (cases "birth_due b c (i, j)")
    case False
    then have scan: "birth_scan b q c (sq # sqs) = birth_scan b q c sqs"
      by (auto simp: sq gp birth_due_def)
    from False have f: "filter (birth_due b c) (sq # sqs) = filter (birth_due b c) sqs"
      by (simp add: sq)
    from Cons.IH [OF d rs Cons.prems(3,4,5)] show ?thesis
      unfolding scan f .
  next
    case True
    obtain l ql where q: "q = l # ql" using Cons.prems(4) by (cases q) auto
    from Cons.prems(5) q obtain K where K: "kind_of_letter l = Some K" by auto
    let ?v = "set_position (new_piece K c) i j"
    let ?b1 = "put b (nat i) (nat j) ?v"
    let ?q1 = "ql @ [l]"
    let ?due = "filter (birth_due b c) sqs"
    have q1: "?q1 = rotate1 q" by (simp add: q)
    from r have rn: "nat i < 8" "nat j < 8" by (auto simp: in_range_def)
    have sh1: "board_shape ?b1" using Cons.prems(3) rn by (simp add: put_shape)
    have q1ne: "?q1 \<noteq> []" by simp
    have q1ok: "\<forall>l\<in>set ?q1. kind_of_letter l \<noteq> None" using Cons.prems(5) q by auto
    have due1: "filter (birth_due ?b1 c) sqs = ?due"
      by (rule birth_due_put [OF Cons.prems(3) r rs notin])
    have f: "filter (birth_due b c) (sq # sqs) = (i, j) # ?due"
      using True by (simp add: sq)
    have scan: "birth_scan b q c (sq # sqs) = birth_scan ?b1 ?q1 c sqs"
      using True by (simp add: sq gp birth_due_def q set_new_piece_in [OF Cons.prems(3) r K])
    from Cons.IH [OF d rs sh1 q1ne q1ok] obtain b' where
      res: "birth_scan ?b1 ?q1 c sqs = Inr (b', rotate (length ?due) ?q1)"
      and sh': "board_shape b'"
      and placed: "\<forall>k<length ?due.
              \<exists>K. kind_of_letter (?q1 ! (k mod length ?q1)) = Some K \<and>
                b' ! nat (fst (?due ! k)) ! nat (snd (?due ! k)) =
                set_position (new_piece K c) (fst (?due ! k)) (snd (?due ! k))"
      and frame: "\<forall>sq. in_range sq \<and> sq \<notin> set ?due \<longrightarrow>
              b' ! nat (fst sq) ! nat (snd sq) = ?b1 ! nat (fst sq) ! nat (snd sq)"
      unfolding due1 by blast
    have "birth_scan b q c (sq # sqs) = Inr (b', rotate (length ((i, j) # ?due)) q)"
      using scan res by (simp add: q1 rotate1_rotate_swap)
    moreover have "\<forall>k<length ((i, j) # ?due).
              \<exists>K. kind_of_letter (q ! (k mod length q)) = Some K \<and>
                b' ! nat (fst (((i, j) # ?due) ! k)) ! nat (snd (((i, j) # ?due) ! k)) =
                set_position (new_piece K c) (fst (((i, j) # ?due) ! k))
                   (snd (((i, j) # ?due) ! k))"
    proof (intro allI impI)
      fix k assume k: "k < length ((i, j) # ?due)"
      show "\<exists>K. kind_of_letter (q ! (k mod length q)) = Some K \<and>
                b' ! nat (fst (((i, j) # ?due) ! k)) ! nat (snd (((i, j) # ?due) ! k)) =
                set_position (new_piece K c) (fst (((i, j) # ?due) ! k))
                   (snd (((i, j) # ?due) ! k))"
      proof (cases k)
        case 0
        have "(i, j) \<notin> set ?due" using notin by simp
        with frame r have "b' ! nat i ! nat j = ?b1 ! nat i ! nat j" by auto
        also have "\<dots> = ?v" using Cons.prems(3) rn by (simp add: put_nth)
        finally show ?thesis using 0 K by (simp add: q)
      next
        case (Suc k')
        with k have k': "k' < length ?due" by simp
        from placed k' obtain K' where
          K': "kind_of_letter (?q1 ! (k' mod length ?q1)) = Some K'"
          and at: "b' ! nat (fst (?due ! k')) ! nat (snd (?due ! k')) =
                set_position (new_piece K' c) (fst (?due ! k')) (snd (?due ! k'))"
          by blast
        have "?q1 ! (k' mod length ?q1) = q ! (Suc (k' mod length q) mod length q)"
          unfolding q1 using Cons.prems(4) by (simp add: nth_rotate1)
        also have "\<dots> = q ! (Suc k' mod length q)" by (simp add: mod_Suc_eq)
        finally have "kind_of_letter (q ! (Suc k' mod length q)) = Some K'" using K' by simp
        with at Suc show ?thesis by simp
      qed
    qed
    moreover have "\<forall>s. in_range s \<and> s \<notin> set ((i, j) # ?due) \<longrightarrow>
              b' ! nat (fst s) ! nat (snd s) = b ! nat (fst s) ! nat (snd s)"
    proof (intro allI impI)
      fix s assume s: "in_range s \<and> s \<notin> set ((i, j) # ?due)"
      then have "b' ! nat (fst s) ! nat (snd s) = ?b1 ! nat (fst s) ! nat (snd s)"
        using frame by auto
      moreover from s r have "\<not> (nat (fst s) = nat i \<and> nat (snd s) = nat j)"
        by (cases s) (auto simp: in_range_def)
      ultimately show "b' ! nat (fst s) ! nat (snd s) = b ! nat (fst s) ! nat (snd s)"
        using Cons.prems(3) rn by (auto simp: put_nth)
    qed
    ultimately show ?thesis using sh' unfolding f by blast
  qed
qed


lemma scan_squares_White: "scan_squares White = map (\<lambda>n. (n div 8, n mod 8)) [0..63]"
  by code_simp

lemma scan_squares_Black: "scan_squares Black = map (\<lambda>n. (7 - n div 8, n mod 8)) [0..63]"
  by code_simp

lemma scan_squares_other: "c \<noteq> White \<Longrightarrow> scan_squares c = scan_squares Black"
  by (simp add: scan_squares_def)

lemma scan_squares_distinct: "distinct (scan_squares c)"
  by (simp add: scan_squares_def product_concat_map [symmetric] distinct_product)

lemma scan_squares_in_range: "list_all in_range (scan_squares c)"
  by (auto simp: scan_squares_def list_all_iff in_range_def)

lemma birth_pass_result:
  assumes "board_shape (board e)" and "current_turn e = c" and "c = White \<or> c = Black"
    and "q = (if c = White then white_birth_queue e else black_birth_queue e)"
    and "q \<noteq> []" and "\<forall>l\<in>set q. kind_of_letter l \<noteq> None"
    and "due = filter (birth_due (board e) c) (scan_squares c)"
  shows "\<exists>b'. birth_pass e =
                 Inr (if c = White
                      then e\<lparr>board := b', white_birth_queue := rotate (length due) q\<rparr>
                      else e\<lparr>board := b', black_birth_queue := rotate (length due) q\<rparr>)
            \<and> (\<forall>k<length due.
                  \<exists>K. kind_of_letter (q ! (k mod length q)) = Some K \<and>
                    b' ! nat (fst (due ! k)) ! nat (snd (due ! k)) =
                      set_position (new_piece K c) (fst (due ! k)) (snd (due ! k)))
            \<and> (\<forall>sq. in_range sq \<and> sq \<notin> set due \<longrightarrow>
                  b' ! nat (fst sq) ! nat (snd sq) = board e ! nat (fst sq) ! nat (snd sq))"
proof -
  from birth_scan_result [OF scan_squares_distinct scan_squares_in_range assms(1,5,6), of c c]
  obtain b' where
    res: "birth_scan (board e) q c (scan_squares c) = Inr (b', rotate (length due) q)"
    and placed: "\<forall>k<length due.
                  \<exists>K. kind_of_letter (q ! (k mod length q)) = Some K \<and>
                    b' ! nat (fst (due ! k)) ! nat (snd (due ! k)) =
                      set_position (new_piece K c) (fst (due ! k)) (snd (due ! k))"
    and frame: "\<forall>sq. in_range sq \<and> sq \<notin> set due \<longrightarrow>
                  b' ! nat (fst sq) ! nat (snd sq) = board e ! nat (fst sq) ! nat (snd sq)"
    unfolding assms(7) by blast
  have "birth_pass e =
                 Inr (if c = White
                      then e\<lparr>board := b', white_birth_queue := rotate (length due) q\<rparr>
                      else e\<lparr>board := b', black_birth_queue := rotate (length due) q\<rparr>)"
    using res assms(2,3,4) by (auto simp: birth_pass_def)
  with placed frame show ?thesis by blast
qed

lemma born_fields:
  assumes "p = set_position (new_piece K c) i j"
  shows "kind p = K \<and> side p = c \<and> row p = i \<and> col p = j
     \<and> death_counter p = 0 \<and> birth_counter_white p = 0 \<and> birth_counter_black p = 0"
  unfolding assms by (simp add: set_position_def new_piece_def)

text \<open>
  Claim C4. The birth pass of \<^verbatim>\<open>update_state\<close> for the side to move \<open>c\<close>. The scan visits
  rank 1 to 8 on White's turn and rank 8 to 1 on Black's, files a to h within a rank. The
  squares that give birth are the squares \<open>due\<close> of the board as it stands before the pass
  that are Empty with the birth counter of colour \<open>c\<close> equal to 3, in scan order: a piece
  placed earlier in the pass does not change them. The \<open>k\<close>-th of them receives a new piece
  whose kind is the \<open>k\<close>-th entry of the queue, counted cyclically from the front, whose
  side is \<open>c\<close>, whose coordinates are the square's and whose counters are 0; the queue ends
  rotated by the number of births; all other squares are unchanged.
\<close>

theorem birth_pass_scan_order:
  assumes "board_shape (board e)" and "current_turn e = c" and "c = White \<or> c = Black"
    and "q = (if c = White then white_birth_queue e else black_birth_queue e)"
    and "q \<noteq> []" and "\<forall>l\<in>set q. kind_of_letter l \<noteq> None"
    and "due = filter (birth_due (board e) c) (scan_squares c)"
  shows "scan_squares White = map (\<lambda>n. (n div 8, n mod 8)) [0..63]
       \<and> scan_squares Black = map (\<lambda>n. (7 - n div 8, n mod 8)) [0..63]
       \<and> (\<exists>b'. birth_pass e =
                 Inr (if c = White
                      then e\<lparr>board := b', white_birth_queue := rotate (length due) q\<rparr>
                      else e\<lparr>board := b', black_birth_queue := rotate (length due) q\<rparr>)
            \<and> (\<forall>k<length due.
                  \<exists>K. kind_of_letter (q ! (k mod length q)) = Some K
                    \<and> b' ! nat (fst (due ! k)) ! nat (snd (due ! k)) =
                        set_position (new_piece K c) (fst (due ! k)) (snd (due ! k))
                    \<and> kind (b' ! nat (fst (due ! k)) ! nat (snd (due ! k))) = K
                    \<and> side (b' ! nat (fst (due ! k)) ! nat (snd (due ! k))) = c
                    \<and> row (b' ! nat (fst (due ! k)) ! nat (snd (due ! k))) = fst (due ! k)
                    \<and> col (b' ! nat (fst (due ! k)) ! nat (snd (due ! k))) = snd (due ! k)
                    \<and> death_counter (b' ! nat (fst (due ! k)) ! nat (snd (due ! k))) = 0
                    \<and> birth_counter_white (b' ! nat (fst (due ! k)) ! nat (snd (due ! k))) = 0
                    \<and> birth_counter_black (b' ! nat (fst (due ! k)) ! nat (snd (due ! k))) = 0)
            \<and> (\<forall>sq. in_range sq \<and> sq \<notin> set due \<longrightarrow>
                  b' ! nat (fst sq) ! nat (snd sq) = board e ! nat (fst sq) ! nat (snd sq)))"
proof -
  from birth_pass_result [OF assms] obtain b' where
    res: "birth_pass e =
                 Inr (if c = White
                      then e\<lparr>board := b', white_birth_queue := rotate (length due) q\<rparr>
                      else e\<lparr>board := b', black_birth_queue := rotate (length due) q\<rparr>)"
    and placed: "\<forall>k<length due.
                  \<exists>K. kind_of_letter (q ! (k mod length q)) = Some K \<and>
                    b' ! nat (fst (due ! k)) ! nat (snd (due ! k)) =
                      set_position (new_piece K c) (fst (due ! k)) (snd (due ! k))"
    and frame: "\<forall>sq. in_range sq \<and> sq \<notin> set due \<longrightarrow>
                  b' ! nat (fst sq) ! nat (snd sq) = board e ! nat (fst sq) ! nat (snd sq)"
    by blast
  have fields: "\<forall>k<length due.
                  \<exists>K. kind_of_letter (q ! (k mod length q)) = Some K
                    \<and> b' ! nat (fst (due ! k)) ! nat (snd (due ! k)) =
                        set_position (new_piece K c) (fst (due ! k)) (snd (due ! k))
                    \<and> kind (b' ! nat (fst (due ! k)) ! nat (snd (due ! k))) = K
                    \<and> side (b' ! nat (fst (due ! k)) ! nat (snd (due ! k))) = c
                    \<and> row (b' ! nat (fst (due ! k)) ! nat (snd (due ! k))) = fst (due ! k)
                    \<and> col (b' ! nat (fst (due ! k)) ! nat (snd (due ! k))) = snd (due ! k)
                    \<and> death_counter (b' ! nat (fst (due ! k)) ! nat (snd (due ! k))) = 0
                    \<and> birth_counter_white (b' ! nat (fst (due ! k)) ! nat (snd (due ! k))) = 0
                    \<and> birth_counter_black (b' ! nat (fst (due ! k)) ! nat (snd (due ! k))) = 0"
  proof (intro allI impI)
    fix k assume "k < length due"
    with placed obtain K where K: "kind_of_letter (q ! (k mod length q)) = Some K"
      and at: "b' ! nat (fst (due ! k)) ! nat (snd (due ! k)) =
                      set_position (new_piece K c) (fst (due ! k)) (snd (due ! k))"
      by blast
    from K at born_fields [OF at]
    show "\<exists>K. kind_of_letter (q ! (k mod length q)) = Some K
                    \<and> b' ! nat (fst (due ! k)) ! nat (snd (due ! k)) =
                        set_position (new_piece K c) (fst (due ! k)) (snd (due ! k))
                    \<and> kind (b' ! nat (fst (due ! k)) ! nat (snd (due ! k))) = K
                    \<and> side (b' ! nat (fst (due ! k)) ! nat (snd (due ! k))) = c
                    \<and> row (b' ! nat (fst (due ! k)) ! nat (snd (due ! k))) = fst (due ! k)
                    \<and> col (b' ! nat (fst (due ! k)) ! nat (snd (due ! k))) = snd (due ! k)
                    \<and> death_counter (b' ! nat (fst (due ! k)) ! nat (snd (due ! k))) = 0
                    \<and> birth_counter_white (b' ! nat (fst (due ! k)) ! nat (snd (due ! k))) = 0
                    \<and> birth_counter_black (b' ! nat (fst (due ! k)) ! nat (snd (due ! k))) = 0"
      by blast
  qed
  from res fields frame scan_squares_White scan_squares_Black show ?thesis by blast
qed

lemma due_list: "[(2, 0), (2, 1), (4, 5)] =
       filter (birth_due (board due_engine) White) (scan_squares White)" by code_simp

theorem birth_pass_scan_order_witness:
  "\<exists>b'. birth_pass due_engine =
           Inr (due_engine\<lparr>board := b', white_birth_queue := rotate 3 birth_queue_seed\<rparr>)
       \<and> kind (b' ! 2 ! 0) = Pawn \<and> side (b' ! 2 ! 0) = White
       \<and> row (b' ! 2 ! 0) = 2 \<and> col (b' ! 2 ! 0) = 0 \<and> birth_counter_white (b' ! 2 ! 0) = 0
       \<and> kind (b' ! 2 ! 1) = Rook \<and> side (b' ! 2 ! 1) = White
       \<and> row (b' ! 2 ! 1) = 2 \<and> col (b' ! 2 ! 1) = 1 \<and> death_counter (b' ! 2 ! 1) = 0
       \<and> kind (b' ! 4 ! 5) = Pawn \<and> side (b' ! 4 ! 5) = White
       \<and> row (b' ! 4 ! 5) = 4 \<and> col (b' ! 4 ! 5) = 5
       \<and> b' ! 4 ! 4 = due_board ! 4 ! 4"
proof -
  have sh: "board_shape (board due_engine)" by code_simp
  have t: "current_turn due_engine = White" by code_simp
  have q: "birth_queue_seed = (if White = White then white_birth_queue due_engine
                                else black_birth_queue due_engine)" by code_simp
  have ne: "birth_queue_seed \<noteq> []" by code_simp
  have ok: "\<forall>l\<in>set birth_queue_seed. kind_of_letter l \<noteq> None" by code_simp
  have b: "board due_engine = due_board" by (simp add: due_engine_def)
  have k: "kind_of_letter (birth_queue_seed ! 0) = Some Pawn"
    "kind_of_letter (birth_queue_seed ! 1) = Some Rook"
    "kind_of_letter (birth_queue_seed ! 2) = Some Pawn" by code_simp+
  have len: "length birth_queue_seed = 14" by code_simp
  let ?due = "[(2::int, 0::int), (2, 1), (4, 5)]"
  have l3: "length ?due = 3" by simp
  from birth_pass_scan_order [OF sh t disjI1 [OF refl] q ne ok due_list]
  obtain b' where
    res0: "birth_pass due_engine =
           Inr (if White = White
                then due_engine\<lparr>board := b',
                       white_birth_queue := rotate (length ?due) birth_queue_seed\<rparr>
                else due_engine\<lparr>board := b',
                       black_birth_queue := rotate (length ?due) birth_queue_seed\<rparr>)"
    and placed: "\<forall>k<length ?due.
                  \<exists>K. kind_of_letter (birth_queue_seed ! (k mod length birth_queue_seed)) = Some K
                    \<and> b' ! nat (fst (?due ! k)) ! nat (snd (?due ! k)) =
                        set_position (new_piece K White) (fst (?due ! k)) (snd (?due ! k))
                    \<and> kind (b' ! nat (fst (?due ! k)) ! nat (snd (?due ! k))) = K
                    \<and> side (b' ! nat (fst (?due ! k)) ! nat (snd (?due ! k))) = White
                    \<and> row (b' ! nat (fst (?due ! k)) ! nat (snd (?due ! k))) = fst (?due ! k)
                    \<and> col (b' ! nat (fst (?due ! k)) ! nat (snd (?due ! k))) = snd (?due ! k)
                    \<and> death_counter (b' ! nat (fst (?due ! k)) ! nat (snd (?due ! k))) = 0
                    \<and> birth_counter_white (b' ! nat (fst (?due ! k)) ! nat (snd (?due ! k))) = 0
                    \<and> birth_counter_black (b' ! nat (fst (?due ! k)) ! nat (snd (?due ! k))) = 0"
    and frame: "\<forall>sq. in_range sq \<and> sq \<notin> set ?due \<longrightarrow>
                  b' ! nat (fst sq) ! nat (snd sq) =
                    board due_engine ! nat (fst sq) ! nat (snd sq)"
    by blast
  from res0 have res: "birth_pass due_engine =
           Inr (due_engine\<lparr>board := b', white_birth_queue := rotate 3 birth_queue_seed\<rparr>)"
    by (simp only: l3 simp_thms if_True)
  from placed [rule_format, of 0] k(1)
  have p0: "kind (b' ! 2 ! 0) = Pawn \<and> side (b' ! 2 ! 0) = White
       \<and> row (b' ! 2 ! 0) = 2 \<and> col (b' ! 2 ! 0) = 0 \<and> birth_counter_white (b' ! 2 ! 0) = 0"
    by (simp add: len set_position_def new_piece_def)
  from placed [rule_format, of 1] k(2)
  have p1: "kind (b' ! 2 ! 1) = Rook \<and> side (b' ! 2 ! 1) = White
       \<and> row (b' ! 2 ! 1) = 2 \<and> col (b' ! 2 ! 1) = 1 \<and> death_counter (b' ! 2 ! 1) = 0"
    by (simp add: len set_position_def new_piece_def)
  from placed [rule_format, of 2] k(3)
  have p2: "kind (b' ! 4 ! 5) = Pawn \<and> side (b' ! 4 ! 5) = White
       \<and> row (b' ! 4 ! 5) = 4 \<and> col (b' ! 4 ! 5) = 5"
    by (simp add: len set_position_def new_piece_def)
  from frame [rule_format, of "(4, 4)"] have p3: "b' ! 4 ! 4 = due_board ! 4 ! 4"
    by (simp add: in_range_def b)
  from res p0 p1 p2 p3 show ?thesis by blast
qed

subsection \<open>The invariant of reachable engines\<close>

lemma idents_length: "idents b' = idents b \<Longrightarrow> length b' = length b"
  unfolding idents_def by (rule map_eq_imp_length_eq)

lemma idents_row:
  assumes "idents b' = idents b" "i < length b"
  shows "map ident (b' ! i) = map ident (b ! i)"
proof -
  from assms(2) idents_length [OF assms(1)] have l: "i < length b'" by simp
  have "idents b' ! i = idents b ! i" using assms(1) by simp
  with l assms(2) show ?thesis by (simp add: idents_def)
qed

lemma idents_row_length:
  assumes "idents b' = idents b" "i < length b"
  shows "length (b' ! i) = length (b ! i)"
  using idents_row [OF assms] by (rule map_eq_imp_length_eq)

lemma idents_nth:
  assumes "idents b' = idents b" "i < length b" "j < length (b ! i)"
  shows "ident (b' ! i ! j) = ident (b ! i ! j)"
proof -
  have l: "j < length (b' ! i)" using assms(3) idents_row_length [OF assms(1,2)] by simp
  have "map ident (b' ! i) ! j = map ident (b ! i) ! j"
    using idents_row [OF assms(1,2)] by simp
  with l assms(3) show ?thesis by simp
qed

lemma idents_shape:
  assumes "idents b' = idents b" "board_shape b"
  shows "board_shape b'"
proof -
  have l: "length b' = 8" using idents_length [OF assms(1)] assms(2) by (simp add: board_shape_def)
  have "length line = 8" if "line \<in> set b'" for line
  proof -
    from that obtain i where i: "i < length b'" "line = b' ! i"
      by (auto simp: in_set_conv_nth)
    with l assms(2) idents_row_length [OF assms(1), of i] show ?thesis
      by (simp add: shape_length shape_row)
  qed
  with l show ?thesis by (simp add: board_shape_def)
qed

lemma idents_fields:
  assumes "idents b' = idents b" "board_shape b" "i < 8" "j < 8"
  shows "kind (b' ! i ! j) = kind (b ! i ! j)" "side (b' ! i ! j) = side (b ! i ! j)"
    "row (b' ! i ! j) = row (b ! i ! j)" "col (b' ! i ! j) = col (b ! i ! j)"
  using idents_nth [OF assms(1), of i j] assms(2,3,4)
  by (simp_all add: ident_def shape_length shape_row)

lemma idents_own:
  assumes "idents b' = idents b" "board_shape b" "own_coordinates b"
  shows "own_coordinates b'"
proof -
  have sh': "board_shape b'" by (rule idents_shape [OF assms(1,2)])
  show ?thesis
    unfolding own_coordinates_def
  proof clarify
    fix i j assume "(i, j) \<in> set (board_squares b')"
    with sh' have ij: "i < 8" "j < 8" by (simp_all add: board_squares_shape)
    from own_coordinates_nth [OF assms(2,3) ij] idents_fields(3,4) [OF assms(1,2) ij]
    show "row (b' ! i ! j) = int i \<and> col (b' ! i ! j) = int j" by simp
  qed
qed

lemma one_king_iff:
  assumes "board_shape b"
  shows "one_king b s \<longleftrightarrow>
    (\<forall>i<8. \<forall>j<8. \<forall>i'<8. \<forall>j'<8.
        kind (b ! i ! j) = King \<and> side (b ! i ! j) = s \<and>
        kind (b ! i' ! j') = King \<and> side (b ! i' ! j') = s \<longrightarrow> i = i' \<and> j = j')"
  unfolding one_king_def
  by (simp add: Ball_def board_squares_shape [OF assms] split_paired_All) blast

lemma idents_one_king:
  assumes "idents b' = idents b" "board_shape b" "one_king b s"
  shows "one_king b' s"
proof -
  have sh': "board_shape b'" by (rule idents_shape [OF assms(1,2)])
  have f: "kind (b' ! i ! j) = kind (b ! i ! j) \<and> side (b' ! i ! j) = side (b ! i ! j)"
    if "i < 8" "j < 8" for i j
    using idents_fields(1,2) [OF assms(1,2) that] by simp
  from assms(3) show ?thesis
    unfolding one_king_iff [OF sh'] one_king_iff [OF assms(2)]
    by (simp add: f)
qed

lemma tick_ident: "ident (tick p nb t u) = ident p"
  by (simp add: ident_def tick_def Let_def)

lemma idents_update:
  assumes "ident v = ident (b ! i ! j)"
  shows "idents (b[i := (b ! i)[j := v]]) = idents b"
proof (cases "i < length b")
  case False
  then have "length b \<le> i" by simp
  then have "b[i := (b ! i)[j := v]] = b" by (rule list_update_beyond)
  then show ?thesis by simp
next
  case True
  have r: "map ident ((b ! i)[j := v]) = map ident (b ! i)"
  proof (cases "j < length (b ! i)")
    case True
    have "map ident ((b ! i)[j := v]) = (map ident (b ! i))[j := ident v]"
      by (rule map_update)
    also have "\<dots> = (map ident (b ! i))[j := map ident (b ! i) ! j]"
      using True assms by simp
    also have "\<dots> = map ident (b ! i)" by (rule list_update_id)
    finally show ?thesis .
  next
    case False
    then have "length (b ! i) \<le> j" by simp
    then have "(b ! i)[j := v] = b ! i" by (rule list_update_beyond)
    then show ?thesis by simp
  qed
  have "idents (b[i := (b ! i)[j := v]]) = (idents b)[i := map ident ((b ! i)[j := v])]"
    unfolding idents_def by (rule map_update)
  also have "\<dots> = (idents b)[i := idents b ! i]"
    using True by (simp only: r idents_def nth_map)
  also have "\<dots> = idents b" by (rule list_update_id)
  finally show ?thesis .
qed

lemma idents_tick_square: "idents (tick_square t u sq b) = idents b"
proof -
  obtain i j where sq: "sq = (i, j)" by (cases sq)
  show ?thesis
    unfolding sq tick_square_def prod.case
    by (rule idents_update) (rule tick_ident)
qed

lemma idents_fold_tick: "idents (fold (tick_square t u) sqs b) = idents b"
  by (induction sqs arbitrary: b) (simp_all add: idents_tick_square)

lemma idents_tick_all: "idents (tick_all b t u) = idents b"
  by (simp add: tick_all_def idents_fold_tick)

lemma own_coordinates_iff:
  assumes "board_shape b"
  shows "own_coordinates b \<longleftrightarrow>
    (\<forall>i<8. \<forall>j<8. row (b ! i ! j) = int i \<and> col (b ! i ! j) = int j)"
  unfolding own_coordinates_def
  by (simp add: Ball_def board_squares_shape [OF assms] split_paired_All) blast

lemma board_inv_step:
  assumes inv: "board_inv b" and sh': "board_shape b'"
    and sq: "\<And>i j. i < 8 \<Longrightarrow> j < 8 \<Longrightarrow>
       ident (b' ! i ! j) = ident (b ! i ! j)
       \<or> (kind (b' ! i ! j) \<noteq> King \<and> row (b' ! i ! j) = int i \<and> col (b' ! i ! j) = int j)"
  shows "board_inv b'"
proof -
  from inv have sh: "board_shape b" and own: "own_coordinates b"
    and kw: "one_king b White" and kb: "one_king b Black"
    by (simp_all add: board_inv_def)
  have coord: "row (b' ! i ! j) = int i \<and> col (b' ! i ! j) = int j" if "i < 8" "j < 8" for i j
    using sq [OF that] own_coordinates_nth [OF sh own that] by (auto simp: ident_def)
  have king: "kind (b ! i ! j) = King \<and> side (b ! i ! j) = s"
    if "i < 8" "j < 8" "kind (b' ! i ! j) = King" "side (b' ! i ! j) = s" for i j s
    using sq [OF that(1,2)] that(3,4) by (auto simp: ident_def)
  have one: "one_king b' s" if "one_king b s" for s
    unfolding one_king_iff [OF sh']
  proof (intro allI impI)
    fix i j i' j'
    assume "i < 8" "j < 8" "i' < 8" "j' < 8"
      and k: "kind (b' ! i ! j) = King \<and> side (b' ! i ! j) = s \<and>
          kind (b' ! i' ! j') = King \<and> side (b' ! i' ! j') = s"
    with king [of i j s] king [of i' j' s]
    have "kind (b ! i ! j) = King \<and> side (b ! i ! j) = s \<and>
          kind (b ! i' ! j') = King \<and> side (b ! i' ! j') = s" by simp
    with that \<open>i < 8\<close> \<open>j < 8\<close> \<open>i' < 8\<close> \<open>j' < 8\<close> show "i = i' \<and> j = j'"
      unfolding one_king_iff [OF sh] by blast
  qed
  from coord have "own_coordinates b'" by (simp add: own_coordinates_iff [OF sh'])
  with sh' one [OF kw] one [OF kb] show ?thesis by (simp add: board_inv_def)
qed

lemma board_inv_idents:
  assumes "board_inv b" "idents b' = idents b"
  shows "board_inv b'"
proof (rule board_inv_step [OF assms(1)])
  from assms show "board_shape b'" by (simp add: board_inv_def idents_shape)
next
  fix i j :: nat assume "i < 8" "j < 8"
  with assms have "ident (b' ! i ! j) = ident (b ! i ! j)"
    by (intro idents_nth) (simp_all add: board_inv_def shape_length shape_row)
  then show "ident (b' ! i ! j) = ident (b ! i ! j)
       \<or> (kind (b' ! i ! j) \<noteq> King \<and> row (b' ! i ! j) = int i \<and> col (b' ! i ! j) = int j)"
    by simp
qed

lemma board_inv_tick_all: "board_inv b \<Longrightarrow> board_inv (tick_all b t u)"
  by (rule board_inv_idents) (simp_all add: idents_tick_all)

lemma board_inv_put:
  assumes "board_inv b" "i < 8" "j < 8" "kind v \<noteq> King" "row v = int i" "col v = int j"
  shows "board_inv (put b i j v)"
proof (rule board_inv_step [OF assms(1)])
  from assms show "board_shape (put b i j v)" by (simp add: board_inv_def put_shape)
next
  fix i' j' :: nat assume "i' < 8" "j' < 8"
  from assms(1) have sh: "board_shape b" by (simp add: board_inv_def)
  show "ident (put b i j v ! i' ! j') = ident (b ! i' ! j')
       \<or> (kind (put b i j v ! i' ! j') \<noteq> King \<and> row (put b i j v ! i' ! j') = int i'
           \<and> col (put b i j v ! i' ! j') = int j')"
    using assms(2-6) by (simp add: put_nth [OF sh assms(2,3)])
qed

lemma kill_piece_inv:
  assumes "board_inv b" "0 \<le> row p" "row p < 8" "0 \<le> col p" "col p < 8"
  shows "board_inv (fst (kill_piece b p t))"
proof -
  from assms(1) have sh: "board_shape b" by (simp add: board_inv_def)
  have n: "nat (row p) < 8" "nat (col p) < 8" using assms by auto
  have e: "board_inv (put b (nat (row p)) (nat (col p)) (set_position new_empty (row p) (col p)))"
    using assms n
    by (intro board_inv_put) (simp_all add: set_position_def new_empty_def new_piece_def)
  show ?thesis
    using assms e sh
    by (auto simp: kill_piece_def get_piece_in board_set_in perish_cases)
qed

lemma death_pass_inv:
  assumes "board_inv b" "\<forall>p\<in>set ps. 0 \<le> row p \<and> row p < 8 \<and> 0 \<le> col p \<and> col p < 8"
  shows "board_inv (fst (death_pass b ps t))"
  using assms
proof (induction ps arbitrary: b)
  case Nil
  then show ?case by simp
next
  case (Cons p ps)
  from Cons.prems have k: "board_inv (fst (kill_piece b p t))"
    by (intro kill_piece_inv) simp_all
  show ?case
  proof (cases "death_counter p = 4")
    case False
    with Cons show ?thesis by simp
  next
    case True
    obtain b' x where r: "kill_piece b p t = (b', x)" by (cases "kill_piece b p t")
    with k have inv': "board_inv b'" by simp
    show ?thesis
    proof (cases x)
      case None
      with True r Cons.IH [OF inv'] Cons.prems(2) show ?thesis by simp
    next
      case (Some a)
      with True r inv' show ?thesis by simp
    qed
  qed
qed

lemma pieces_in_range:
  assumes "board_shape b" "own_coordinates b" "p \<in> set (get_pieces b)"
  shows "0 \<le> row p \<and> row p < 8 \<and> 0 \<le> col p \<and> col p < 8"
proof -
  from in_pieces_shape [OF assms(1,3)] obtain i j where "i < 8" "j < 8" "p = b ! i ! j"
    by blast
  with own_coordinates_nth [OF assms(1,2), of i j] show ?thesis by simp
qed

lemma kind_of_letter_King: "kind_of_letter l = Some King \<Longrightarrow> l = ''K''"
  by (simp add: kind_of_letter_def split: if_splits)

lemma seed_length: "length birth_queue_seed = 14"
  by (simp add: birth_queue_seed_def)

lemma seed_rotation_iff: "seed_rotation q \<longleftrightarrow> (\<exists>n<14. q = rotate n birth_queue_seed)"
  by (auto simp: seed_rotation_def)

lemma seed_rotation_rotate:
  assumes "seed_rotation q"
  shows "seed_rotation (rotate n q)"
proof -
  from assms obtain m where "q = rotate m birth_queue_seed" by (auto simp: seed_rotation_iff)
  then have "rotate n q = rotate (n + m) birth_queue_seed" by (simp add: rotate_rotate)
  also have "\<dots> = rotate ((n + m) mod 14) birth_queue_seed"
    using rotate_conv_mod [of "n + m" birth_queue_seed] by (simp add: seed_length)
  finally show ?thesis unfolding seed_rotation_iff by (intro exI [of _ "(n + m) mod 14"]) simp
qed

lemma seed_letters:
  "l \<in> set birth_queue_seed \<Longrightarrow> kind_of_letter l \<noteq> None \<and> l \<noteq> ''K''"
  by (auto simp: birth_queue_seed_def kind_of_letter_def)

lemma seed_rotation_letters:
  assumes "seed_rotation q"
  shows "q \<noteq> []" and "\<forall>l\<in>set q. kind_of_letter l \<noteq> None"
    and "\<forall>l\<in>set q. l \<noteq> ''K''"
proof -
  from assms obtain m where q: "q = rotate m birth_queue_seed"
    by (auto simp: seed_rotation_iff)
  then have "length q = 14" by (simp add: seed_length)
  then show "q \<noteq> []" by auto
  from q have s: "set q = set birth_queue_seed" by simp
  show "\<forall>l\<in>set q. kind_of_letter l \<noteq> None" unfolding s using seed_letters by blast
  show "\<forall>l\<in>set q. l \<noteq> ''K''" unfolding s using seed_letters by blast
qed

lemma birth_scan_inv:
  assumes "board_inv b" and "seed_rotation q"
    and "distinct sqs" and "list_all in_range sqs"
  shows "\<exists>b' n. birth_scan b q c sqs = Inr (b', rotate n q) \<and> board_inv b'"
proof -
  from assms(1) have sh: "board_shape b" by (simp add: board_inv_def)
  note ql = seed_rotation_letters [OF assms(2)]
  let ?due = "filter (birth_due b c) sqs"
  from birth_scan_result [OF assms(3,4) sh ql(1,2), of c]
  obtain b' where
    res: "birth_scan b q c sqs = Inr (b', rotate (length ?due) q)"
    and sh': "board_shape b'"
    and placed: "\<forall>k<length ?due.
              \<exists>K. kind_of_letter (q ! (k mod length q)) = Some K \<and>
                b' ! nat (fst (?due ! k)) ! nat (snd (?due ! k)) =
                set_position (new_piece K c) (fst (?due ! k)) (snd (?due ! k))"
    and frame: "\<forall>sq. in_range sq \<and> sq \<notin> set ?due \<longrightarrow>
              b' ! nat (fst sq) ! nat (snd sq) = b ! nat (fst sq) ! nat (snd sq)"
    by blast
  have "board_inv b'"
  proof (rule board_inv_step [OF assms(1) sh'])
    fix i j :: nat assume ij: "i < 8" "j < 8"
    then have r: "in_range (int i, int j)" by (simp add: in_range_def)
    show "ident (b' ! i ! j) = ident (b ! i ! j)
       \<or> (kind (b' ! i ! j) \<noteq> King \<and> row (b' ! i ! j) = int i \<and> col (b' ! i ! j) = int j)"
    proof (cases "(int i, int j) \<in> set ?due")
      case False
      with frame r have "b' ! i ! j = b ! i ! j" by fastforce
      then show ?thesis by simp
    next
      case True
      then obtain k where k: "k < length ?due" "?due ! k = (int i, int j)"
        unfolding in_set_conv_nth by blast
      with placed obtain K where
        K: "kind_of_letter (q ! (k mod length q)) = Some K"
        and at: "b' ! i ! j = set_position (new_piece K c) (int i) (int j)"
        by fastforce
      have "q ! (k mod length q) \<in> set q" using ql(1) by simp
      with ql(3) have "q ! (k mod length q) \<noteq> ''K''" by blast
      with K kind_of_letter_King have "K \<noteq> King" by blast
      with at show ?thesis by (simp add: set_position_def new_piece_def)
    qed
  qed
  with res show ?thesis by blast
qed

lemma birth_pass_inv:
  assumes "board_inv (board e)" and "seed_rotation (white_birth_queue e)"
    and "seed_rotation (black_birth_queue e)"
  shows "\<exists>e'. birth_pass e = Inr e' \<and> board_inv (board e')
     \<and> seed_rotation (white_birth_queue e') \<and> seed_rotation (black_birth_queue e')
     \<and> selected_piece e' = selected_piece e \<and> current_turn e' = current_turn e"
proof -
  from birth_scan_inv [OF assms(1,2) scan_squares_distinct scan_squares_in_range, of White White]
  obtain bw nw where
    w: "birth_scan (board e) (white_birth_queue e) White (scan_squares White) =
          Inr (bw, rotate nw (white_birth_queue e))" "board_inv bw"
    by blast
  from birth_scan_inv [OF assms(1,3) scan_squares_distinct scan_squares_in_range, of Black Black]
  obtain bb nb where
    b: "birth_scan (board e) (black_birth_queue e) Black (scan_squares Black) =
          Inr (bb, rotate nb (black_birth_queue e))" "board_inv bb"
    by blast
  show ?thesis
    using w b assms seed_rotation_rotate [OF assms(2), of nw]
      seed_rotation_rotate [OF assms(3), of nb]
    by (simp add: birth_pass_def)
qed

lemma engine_inv_iff:
  "engine_inv e \<longleftrightarrow>
     board_inv (board e)
     \<and> (case selected_piece e of None \<Rightarrow> True | Some p \<Rightarrow> on_board (board e) p)
     \<and> seed_rotation (white_birth_queue e) \<and> seed_rotation (black_birth_queue e)"
  by (auto simp: engine_inv_def board_inv_def)

lemma resolve_turn_inv:
  assumes "board_inv (board e0)" and "seed_rotation (white_birth_queue e0)"
    and "seed_rotation (black_birth_queue e0)" and "resolve_turn e0 = Inr (e', changed)"
  shows "engine_inv e'"
proof -
  let ?e2 = "e0\<lparr>selected_piece := None,
                 current_turn := (if current_turn e0 = White then Black else White)\<rparr>"
  let ?e3 = "?e2\<lparr>board := tick_all (board ?e2) (current_turn ?e2) True\<rparr>"
  have i3: "board_inv (board ?e3)" using assms(1) by (simp add: board_inv_tick_all)
  from birth_pass_inv [of ?e3] i3 assms(2,3)
  obtain e4 where e4: "birth_pass ?e3 = Inr e4" "board_inv (board e4)"
    "seed_rotation (white_birth_queue e4)" "seed_rotation (black_birth_queue e4)"
    "selected_piece e4 = None"
    by auto
  from e4(2) have sh4: "board_shape (board e4)" "own_coordinates (board e4)"
    by (simp_all add: board_inv_def)
  obtain b x where d: "death_pass (board e4) (get_pieces (board e4)) (current_turn e4) = (b, x)"
    by (cases "death_pass (board e4) (get_pieces (board e4)) (current_turn e4)")
  have "board_inv (fst (death_pass (board e4) (get_pieces (board e4)) (current_turn e4)))"
    using e4(2) pieces_in_range [OF sh4] by (intro death_pass_inv) auto
  with d have ib: "board_inv b" by simp
  from assms(4) e4(1) d have "e' = (case x of
       Some y \<Rightarrow> e4\<lparr>board := b, game_over_message := Some (str_exn y)\<rparr>
     | None \<Rightarrow> e4\<lparr>board := tick_all b (current_turn e4) False\<rparr>)"
    by (auto simp: resolve_turn_def Let_def split: option.splits)
  with ib e4(3,4,5) show ?thesis
    by (cases x) (simp_all add: engine_inv_iff board_inv_tick_all)
qed

lemma py_index_Some: "py_index xs r = Some n \<Longrightarrow> n < length xs"
  by (auto simp: py_index_def split: if_splits)

lemma get_piece_nth:
  assumes "board_shape b" "get_piece b r c = Inr p"
  shows "\<exists>i<8. \<exists>j<8. p = b ! i ! j"
proof -
  from assms(2) obtain n where n: "py_index b r = Some n"
    by (auto simp: get_piece_def py_getitem_def split: option.splits sum.splits)
  with assms(2) obtain m where m: "py_index (b ! n) c = Some m" and p: "p = b ! n ! m"
    by (auto simp: get_piece_def py_getitem_def split: option.splits sum.splits)
  from py_index_Some [OF n] assms(1) have "n < 8" by (simp add: shape_length)
  moreover from py_index_Some [OF m] assms(1) \<open>n < 8\<close> have "m < 8" by (simp add: shape_row)
  ultimately show ?thesis using p by blast
qed

lemma nth_on_board:
  assumes "board_shape b" "own_coordinates b" "i < 8" "j < 8"
  shows "on_board b (b ! i ! j)"
  using own_coordinates_nth [OF assms] assms(3,4) by (simp add: on_board_def)

lemma get_piece_on_board:
  assumes "board_shape b" "own_coordinates b" "get_piece b r c = Inr p"
  shows "on_board b p"
  using get_piece_nth [OF assms(1,3)] nth_on_board [OF assms(1,2)] by blast

lemma move_piece_inv:
  assumes inv: "board_inv b" and s: "on_board b source" and d: "on_board b dest"
  shows "board_inv (fst (move_piece b source dest))"
proof (cases "move_is_valid source dest \<and> kind dest \<noteq> King")
  case False
  from inv have sh: "board_shape b" by (simp add: board_inv_def)
  show ?thesis
  proof (cases "move_is_valid source dest")
    case True
    with False move_piece_result [OF sh s d True] inv show ?thesis by simp
  next
    case False
    with inv show ?thesis by (simp add: move_piece_def)
  qed
next
  case True
  then have v: "move_is_valid source dest" and nk: "kind dest \<noteq> King" by simp_all
  from inv have sh: "board_shape b" and own: "own_coordinates b"
    by (simp_all add: board_inv_def)
  from move_piece_capture_or_relocate [OF sh own s d v] nk obtain b' where
    res: "move_piece b source dest = (b', Inr True)" and sh': "board_shape b'"
    and atd: "b' ! nat (row dest) ! nat (col dest) = set_position source (row dest) (col dest)"
    and ats: "b' ! nat (row source) ! nat (col source) =
                set_position new_empty (row source) (col source)"
    and frame: "\<forall>i<8. \<forall>j<8. \<not> (i = nat (row dest) \<and> j = nat (col dest))
                  \<and> \<not> (i = nat (row source) \<and> j = nat (col source))
                  \<longrightarrow> b' ! i ! j = b ! i ! j"
    by blast
  from s have sr: "nat (row source) < 8" "nat (col source) < 8"
    "int (nat (row source)) = row source" "int (nat (col source)) = col source"
    and occ: "b ! nat (row source) ! nat (col source) = source"
    by (auto simp: on_board_def)
  from d have dr: "nat (row dest) < 8" "nat (col dest) < 8"
    "int (nat (row dest)) = row dest" "int (nat (col dest)) = col dest"
    by (auto simp: on_board_def)
  have ne: "\<not> (nat (row dest) = nat (row source) \<and> nat (col dest) = nat (col source))"
    by (rule valid_distinct_squares [OF s d v])
  have coord: "row (b' ! i ! j) = int i \<and> col (b' ! i ! j) = int j" if "i < 8" "j < 8" for i j
  proof (cases "i = nat (row dest) \<and> j = nat (col dest)")
    case True
    with atd dr show ?thesis by (simp add: set_position_def)
  next
    case nd: False
    show ?thesis
    proof (cases "i = nat (row source) \<and> j = nat (col source)")
      case True
      with ats sr show ?thesis by (simp add: set_position_def)
    next
      case False
      with nd frame that have "b' ! i ! j = b ! i ! j" by blast
      with own_coordinates_nth [OF sh own that] show ?thesis by simp
    qed
  qed
  define origin where "origin = (\<lambda>(i, j).
    if i = nat (row dest) \<and> j = nat (col dest) then (nat (row source), nat (col source))
    else (i, j))"
  have king: "fst (origin (i, j)) < 8 \<and> snd (origin (i, j)) < 8
      \<and> kind (b ! fst (origin (i, j)) ! snd (origin (i, j))) = King
      \<and> side (b ! fst (origin (i, j)) ! snd (origin (i, j))) = c
      \<and> \<not> (i = nat (row source) \<and> j = nat (col source))"
    if "i < 8" "j < 8" "kind (b' ! i ! j) = King" "side (b' ! i ! j) = c" for i j c
  proof (cases "i = nat (row dest) \<and> j = nat (col dest)")
    case True
    with atd that(3,4) have "kind source = King" "side source = c"
      by (simp_all add: set_position_def)
    with True sr occ ne show ?thesis by (auto simp: origin_def)
  next
    case nd: False
    have nsrc: "\<not> (i = nat (row source) \<and> j = nat (col source))"
    proof
      assume "i = nat (row source) \<and> j = nat (col source)"
      with ats that(3) show False by (simp add: set_position_def new_empty_def new_piece_def)
    qed
    with nd frame that(1,2) have "b' ! i ! j = b ! i ! j" by blast
    with nd nsrc that show ?thesis by (auto simp: origin_def)
  qed
  have one: "one_king b' c" if ok: "one_king b c" for c
    unfolding one_king_iff [OF sh']
  proof (intro allI impI)
    fix i j i' j'
    assume r: "i < 8" "j < 8" "i' < 8" "j' < 8"
      and k: "kind (b' ! i ! j) = King \<and> side (b' ! i ! j) = c \<and>
          kind (b' ! i' ! j') = King \<and> side (b' ! i' ! j') = c"
    from king [OF r(1,2), of c] k have a: "fst (origin (i, j)) < 8 \<and> snd (origin (i, j)) < 8
      \<and> kind (b ! fst (origin (i, j)) ! snd (origin (i, j))) = King
      \<and> side (b ! fst (origin (i, j)) ! snd (origin (i, j))) = c
      \<and> \<not> (i = nat (row source) \<and> j = nat (col source))" by simp
    from king [OF r(3,4), of c] k have a': "fst (origin (i', j')) < 8 \<and> snd (origin (i', j')) < 8
      \<and> kind (b ! fst (origin (i', j')) ! snd (origin (i', j'))) = King
      \<and> side (b ! fst (origin (i', j')) ! snd (origin (i', j'))) = c
      \<and> \<not> (i' = nat (row source) \<and> j' = nat (col source))" by simp
    from ok [unfolded one_king_iff [OF sh], rule_format,
        of "fst (origin (i, j))" "snd (origin (i, j))"
           "fst (origin (i', j'))" "snd (origin (i', j'))"] a a'
    have "origin (i, j) = origin (i', j')"
      by (simp add: prod_eq_iff)
    with a a' show "i = i' \<and> j = j'"
      by (auto simp: origin_def split: if_splits)
  qed
  from coord have "own_coordinates b'" by (simp add: own_coordinates_iff [OF sh'])
  with sh' one inv res show ?thesis by (simp add: board_inv_def)
qed

lemma engine_move_is_valid_result:
  assumes "engine_move_is_valid e source dest sf = Inr (e1, accepted)"
  shows "board e1 = board e \<and> selected_piece e1 = selected_piece e
     \<and> white_birth_queue e1 = white_birth_queue e \<and> black_birth_queue e1 = black_birth_queue e
     \<and> (accepted \<longrightarrow> move_is_valid source dest)"
  using assms
  by (auto simp: engine_move_is_valid_def Let_def
      split: sum.splits option.splits if_splits bool.splits)

lemma stockfish_key_inv:
  assumes "engine_inv e" "stockfish_key e sf = (e1, k1)"
  shows "engine_inv e1"
proof -
  from assms(1) have sh: "board_shape (board e)" and own: "own_coordinates (board e)"
    by (simp_all add: engine_inv_def)
  have sel: "engine_inv (e\<lparr>selected_piece := Some p\<rparr>)"
    if "get_piece (board e) r c = Inr p" for r c p
    using assms(1) get_piece_on_board [OF sh own that] by (simp add: engine_inv_iff)
  have cur: "engine_inv (x\<lparr>cursor_row := r, cursor_col := c\<rparr>)" if "engine_inv x" for x r c
    using that by (simp add: engine_inv_iff split: option.splits)
  from assms(2) show ?thesis
    using assms(1) sel cur
    by (auto simp: stockfish_key_def Let_def split: option.splits sum.splits if_splits)
qed

lemma enter_key_inv:
  assumes "engine_inv e" "enter_key e sf = Inr (e', changed)"
  shows "engine_inv e'"
proof -
  from assms(1) have inv: "board_inv (board e)"
    and wq: "seed_rotation (white_birth_queue e)" and bq: "seed_rotation (black_birth_queue e)"
    by (simp_all add: engine_inv_iff)
  from inv have sh: "board_shape (board e)" and own: "own_coordinates (board e)"
    by (simp_all add: board_inv_def)
  from assms(2) obtain at_cursor where
    g: "get_piece (board e) (cursor_row e) (cursor_col e) = Inr at_cursor"
    by (auto simp: enter_key_def split: sum.splits)
  have oc: "on_board (board e) at_cursor" by (rule get_piece_on_board [OF sh own g])
  show ?thesis
  proof (cases "selected_piece e")
    case None
    with assms g oc show ?thesis
      by (auto simp: enter_key_def engine_inv_iff split: if_splits)
  next
    case (Some source)
    with assms(1) have os: "on_board (board e) source" by (simp add: engine_inv_iff)
    from assms(2) g Some obtain e1 accepted where
      v: "engine_move_is_valid e source at_cursor sf = Inr (e1, accepted)"
      by (auto simp: enter_key_def split: sum.splits)
    note r = engine_move_is_valid_result [OF v]
    show ?thesis
    proof (cases accepted)
      case False
      with assms(2) g Some v have "e' = e1" by (simp add: enter_key_def)
      with assms(1) r Some show ?thesis by (simp add: engine_inv_iff)
    next
      case True
      obtain b out where m: "move_piece (board e1) source at_cursor = (b, out)"
        by (cases "move_piece (board e1) source at_cursor")
      from move_piece_inv [OF inv os oc] r m have ib: "board_inv b" by simp
      show ?thesis
      proof (cases out)
        case (Inl x)
        from True r have valid: "move_is_valid source at_cursor" by simp
        have "b = board e"
          using move_piece_result [OF sh os oc valid] m r Inl
          by (auto split: if_splits)
        moreover from assms(2) g Some v True m Inl
        have "e' = e1\<lparr>board := b, game_over_message := Some (str_exn x)\<rparr>"
          by (simp add: enter_key_def)
        ultimately show ?thesis
          using inv os wq bq r Some by (simp add: engine_inv_iff)
      next
        case (Inr moved)
        with assms(2) g Some v True m
        have "resolve_turn (e1\<lparr>board := b\<rparr>) = Inr (e', changed)"
          by (simp add: enter_key_def)
        then show ?thesis
          using ib wq bq r by (intro resolve_turn_inv [of "e1\<lparr>board := b\<rparr>"]) simp_all
      qed
    qed
  qed
qed

lemma update_state_inv:
  assumes "engine_inv e" "update_state e k sf = Inr (e', changed)"
  shows "engine_inv e'"
proof -
  have cr: "engine_inv (e\<lparr>cursor_row := r\<rparr>)" for r
    using assms(1) by (simp add: engine_inv_iff split: option.splits)
  have cc: "engine_inv (e\<lparr>cursor_col := c\<rparr>)" for c
    using assms(1) by (simp add: engine_inv_iff split: option.splits)
  have un: "engine_inv (x\<lparr>selected_piece := None\<rparr>)" if "engine_inv x" for x
    using that by (simp add: engine_inv_iff)
  show ?thesis
  proof (cases k)
    case Key_up
    with assms(2) cr show ?thesis by (auto simp: update_state_def)
  next
    case Key_down
    with assms(2) cr show ?thesis by (auto simp: update_state_def)
  next
    case Key_left
    with assms(2) cc show ?thesis by (auto simp: update_state_def)
  next
    case Key_right
    with assms(2) cc show ?thesis by (auto simp: update_state_def)
  next
    case Key_stockfish
    obtain e1 k1 where s: "stockfish_key e sf = (e1, k1)" by (cases "stockfish_key e sf")
    note i1 = stockfish_key_inv [OF assms(1) s]
    from assms(2) Key_stockfish s show ?thesis
      using i1 un [OF i1] enter_key_inv [OF i1]
      by (auto simp: update_state_def split: if_splits)
  next
    case Key_enter
    with assms show ?thesis by (auto simp: update_state_def dest: enter_key_inv)
  next
    case Key_other
    with assms(2) un [OF assms(1)] show ?thesis by (auto simp: update_state_def)
  qed
qed

lemma one_king_Board_init: "one_king Board_init White" "one_king Board_init Black"
  by code_simp+

lemma engine_inv_init: "engine_inv Engine_init"
proof -
  have "board_inv Board_init"
    by (simp add: board_inv_def Board_init_shape Board_init_own one_king_Board_init)
  then have "board_inv (board Engine_init)"
    by (simp add: Engine_init_def board_inv_tick_all)
  moreover have "seed_rotation birth_queue_seed"
    unfolding seed_rotation_iff by (intro exI [of _ 0]) simp
  ultimately show ?thesis by (simp add: engine_inv_iff Engine_init_def)
qed

lemma reachable_inv: "reachable e \<Longrightarrow> engine_inv e"
  by (induction rule: reachable.induct) (auto intro: engine_inv_init update_state_inv)

lemma get_pieces_squares: "get_pieces b = map (\<lambda>(i, j). b ! i ! j) (board_squares b)"
proof -
  have "map (\<lambda>(i, j). b ! i ! j) (board_squares b) =
      concat (map (\<lambda>i. map (\<lambda>j. b ! i ! j) [0..<length (b ! i)]) [0..<length b])"
    by (simp add: board_squares_def map_concat comp_def)
  also have "\<dots> = concat (map (\<lambda>i. b ! i) [0..<length b])"
    by (simp add: map_nth)
  also have "\<dots> = concat b" by (simp add: map_nth)
  finally show ?thesis by (simp add: get_pieces_def)
qed

lemma board_squares_distinct:
  assumes "board_shape b"
  shows "distinct (board_squares b)"
proof -
  have "board_squares b = concat (map (\<lambda>i. map (Pair i) [0..<8]) [0..<8])"
    unfolding board_squares_def shape_length [OF assms]
    by (rule arg_cong [where f = concat], rule map_cong)
      (simp_all add: shape_row [OF assms])
  also have "\<dots> = List.product [0..<8] [0..<8]" by (simp add: product_concat_map)
  finally show ?thesis by (simp add: distinct_product)
qed

lemma one_king_count:
  assumes "board_shape b" "one_king b s"
  shows "king_count b s \<le> 1"
proof (rule ccontr)
  let ?P = "\<lambda>p. kind p = King \<and> side p = s"
  let ?ks = "filter (\<lambda>(i, j). ?P (b ! i ! j)) (board_squares b)"
  assume "\<not> king_count b s \<le> 1"
  moreover have "king_count b s = length ?ks"
    by (simp add: king_count_def get_pieces_squares filter_map comp_def case_prod_unfold)
  ultimately have l: "1 < length ?ks" by simp
  have dk: "distinct ?ks" using board_squares_distinct [OF assms(1)] by simp
  from l have l0: "0 < length ?ks" by (rule less_trans [OF zero_less_one])
  have ne: "?ks ! 0 \<noteq> ?ks ! 1"
  proof
    assume "?ks ! 0 = ?ks ! 1"
    with nth_eq_iff_index_eq [OF dk l0 l] show False by simp
  qed
  have m0: "?ks ! 0 \<in> set ?ks" by (rule nth_mem [OF l0])
  have m1: "?ks ! 1 \<in> set ?ks" by (rule nth_mem [OF l])
  obtain i j where x: "?ks ! 0 = (i, j)" by (cases "?ks ! 0")
  obtain i' j' where y: "?ks ! 1 = (i', j')" by (cases "?ks ! 1")
  from m0 x have a: "(i, j) \<in> set (board_squares b)" "?P (b ! i ! j)" by auto
  from m1 y have a': "(i', j') \<in> set (board_squares b)" "?P (b ! i' ! j')" by auto
  from assms(2) a a' have "i = i' \<and> j = j'" unfolding one_king_def by blast
  with ne x y show False by simp
qed

lemma play_reachable:
  assumes "reachable e" and "play e sf ks = Inr e'"
  shows "reachable e'"
  using assms
proof (induction ks arbitrary: e)
  case Nil
  then show ?case by simp
next
  case (Cons k ks)
  from Cons.prems(2) obtain e1 changed where
    u: "update_state e k sf = Inr (e1, changed)" and p: "play e1 sf ks = Inr e'"
    by (auto split: sum.splits)
  from reachable.step [OF Cons.prems(1) u] have "reachable e1" .
  from Cons.IH [OF this p] show ?case .
qed

lemma play_snoc:
  "play e sf (ks @ [k]) =
     (case play e sf ks of
        Inl x \<Rightarrow> Inl x
      | Inr e0 \<Rightarrow> (case update_state e0 k sf of Inl x \<Rightarrow> Inl x | Inr (e', changed) \<Rightarrow> Inr e'))"
  by (induction ks arbitrary: e) (auto split: sum.splits prod.splits)

text \<open>The sample game, evaluated: all four moves are accepted and logged and no exception
  leaves \<^verbatim>\<open>update_state\<close>. Before the last key White's queue is still the seed and the
  third rank is empty; the last key completes Black's second move, and the turn resolution
  that follows gives birth to six white pieces on b3 to g3, in queue order.\<close>

lemma sample_game_end:
  "\<exists>e0 e. play Engine_init None (butlast sample_game_keys) = Inr e0
     \<and> update_state e0 Key_enter None = Inr (e, True)
     \<and> play Engine_init None sample_game_keys = Inr e
     \<and> current_turn e0 = Black
     \<and> white_birth_queue e0 = birth_queue_seed \<and> black_birth_queue e0 = birth_queue_seed
     \<and> map str_piece (board e0 ! 2) = ['' '', '' '', '' '', '' '', '' '', '' '', '' '', '' '']
     \<and> recent_moves_str e = [''Ra1-> a5'', ''ra8-> a6'', ''Ra5-> b5'', ''ra6-> b6'']
     \<and> current_turn e = White \<and> game_over_message e = None
     \<and> map (map str_piece) (board e) =
         [['' '', ''N'', ''B'', ''Q'', ''K'', ''B'', ''N'', ''R''],
          [''P'', ''P'', ''P'', ''P'', ''P'', ''P'', ''P'', ''P''],
          ['' '', ''P'', ''R'', ''P'', ''N'', ''P'', ''B'', '' ''],
          ['' '', '' '', '' '', '' '', '' '', '' '', '' '', '' ''],
          ['' '', ''R'', '' '', '' '', '' '', '' '', '' '', '' ''],
          ['' '', ''r'', '' '', '' '', '' '', '' '', '' '', '' ''],
          [''p'', ''p'', ''p'', ''p'', ''p'', ''p'', ''p'', ''p''],
          ['' '', ''n'', ''b'', ''q'', ''k'', ''b'', ''n'', ''r'']]
     \<and> map side (board e ! 2) =
         [EmptySide, White, White, White, White, White, White, EmptySide]
     \<and> king_count (board e) White = 1 \<and> king_count (board e) Black = 1
     \<and> white_birth_queue e =
         [''P'', ''Q'', ''P'', ''B'', ''P'', ''N'', ''P'', ''R'', ''P'', ''R'', ''P'', ''N'', ''P'', ''B'']
     \<and> black_birth_queue e = birth_queue_seed"
proof -
  have ev: "case play Engine_init None (butlast sample_game_keys) of
      Inl x \<Rightarrow> False
    | Inr e0 \<Rightarrow>
        current_turn e0 = Black
     \<and> white_birth_queue e0 = birth_queue_seed \<and> black_birth_queue e0 = birth_queue_seed
     \<and> map str_piece (board e0 ! 2) = ['' '', '' '', '' '', '' '', '' '', '' '', '' '', '' '']
     \<and> (case update_state e0 Key_enter None of
          Inl x \<Rightarrow> False
        | Inr (e, changed) \<Rightarrow>
            changed
         \<and> recent_moves_str e = [''Ra1-> a5'', ''ra8-> a6'', ''Ra5-> b5'', ''ra6-> b6'']
         \<and> current_turn e = White \<and> game_over_message e = None
         \<and> map (map str_piece) (board e) =
             [['' '', ''N'', ''B'', ''Q'', ''K'', ''B'', ''N'', ''R''],
              [''P'', ''P'', ''P'', ''P'', ''P'', ''P'', ''P'', ''P''],
              ['' '', ''P'', ''R'', ''P'', ''N'', ''P'', ''B'', '' ''],
              ['' '', '' '', '' '', '' '', '' '', '' '', '' '', '' ''],
              ['' '', ''R'', '' '', '' '', '' '', '' '', '' '', '' ''],
              ['' '', ''r'', '' '', '' '', '' '', '' '', '' '', '' ''],
              [''p'', ''p'', ''p'', ''p'', ''p'', ''p'', ''p'', ''p''],
              ['' '', ''n'', ''b'', ''q'', ''k'', ''b'', ''n'', ''r'']]
         \<and> map side (board e ! 2) =
             [EmptySide, White, White, White, White, White, White, EmptySide]
         \<and> king_count (board e) White = 1 \<and> king_count (board e) Black = 1
         \<and> white_birth_queue e =
             [''P'', ''Q'', ''P'', ''B'', ''P'', ''N'', ''P'', ''R'', ''P'', ''R'', ''P'', ''N'', ''P'', ''B'']
         \<and> black_birth_queue e = birth_queue_seed)"
    by code_simp
  have ks: "sample_game_keys = butlast sample_game_keys @ [Key_enter]"
    by (simp add: sample_game_keys_def)
  from ev obtain e0 where p0: "play Engine_init None (butlast sample_game_keys) = Inr e0"
    by (cases "play Engine_init None (butlast sample_game_keys)") simp_all
  from ev p0 obtain e changed where u: "update_state e0 Key_enter None = Inr (e, changed)"
    by (cases "update_state e0 Key_enter None") auto
  from ev p0 u have ch: "changed" by simp
  have p: "play Engine_init None sample_game_keys = Inr e"
    by (subst ks) (simp add: play_snoc p0 u)
  from ev p0 u ch p show ?thesis by auto
qed

text \<open>
  Claim C8. In every engine that a game can reach from the initial position, whatever keys
  are pressed and whatever the advisory engine answers, each side has at most one King on
  the board, and neither birth queue contains the King letter.
\<close>

theorem at_most_one_king:
  assumes "reachable e"
  shows "king_count (board e) White \<le> 1 \<and> king_count (board e) Black \<le> 1
       \<and> ''K'' \<notin> set (white_birth_queue e) \<and> ''K'' \<notin> set (black_birth_queue e)"
proof -
  from reachable_inv [OF assms] have i: "engine_inv e" .
  then have sh: "board_shape (board e)" and kw: "one_king (board e) White"
    and kb: "one_king (board e) Black"
    and wq: "seed_rotation (white_birth_queue e)" and bq: "seed_rotation (black_birth_queue e)"
    by (simp_all add: engine_inv_def)
  from seed_rotation_letters(3) [OF wq] seed_rotation_letters(3) [OF bq]
    one_king_count [OF sh kw] one_king_count [OF sh kb]
  show ?thesis by blast
qed

text \<open>The theorem at the end of the sample game: four accepted moves, four turn
  resolutions with their birth and death passes, six births.\<close>

theorem at_most_one_king_witness:
  "\<exists>e. play Engine_init None sample_game_keys = Inr e
     \<and> recent_moves_str e = [''Ra1-> a5'', ''ra8-> a6'', ''Ra5-> b5'', ''ra6-> b6'']
     \<and> map (map str_piece) (board e) =
         [['' '', ''N'', ''B'', ''Q'', ''K'', ''B'', ''N'', ''R''],
          [''P'', ''P'', ''P'', ''P'', ''P'', ''P'', ''P'', ''P''],
          ['' '', ''P'', ''R'', ''P'', ''N'', ''P'', ''B'', '' ''],
          ['' '', '' '', '' '', '' '', '' '', '' '', '' '', '' ''],
          ['' '', ''R'', '' '', '' '', '' '', '' '', '' '', '' ''],
          ['' '', ''r'', '' '', '' '', '' '', '' '', '' '', '' ''],
          [''p'', ''p'', ''p'', ''p'', ''p'', ''p'', ''p'', ''p''],
          ['' '', ''n'', ''b'', ''q'', ''k'', ''b'', ''n'', ''r'']]
     \<and> king_count (board e) White \<le> 1 \<and> king_count (board e) Black \<le> 1
     \<and> ''K'' \<notin> set (white_birth_queue e) \<and> ''K'' \<notin> set (black_birth_queue e)"
proof -
  from sample_game_end obtain e where
    p: "play Engine_init None sample_game_keys = Inr e"
    and l: "recent_moves_str e = [''Ra1-> a5'', ''ra8-> a6'', ''Ra5-> b5'', ''ra6-> b6'']"
    and b: "map (map str_piece) (board e) =
         [['' '', ''N'', ''B'', ''Q'', ''K'', ''B'', ''N'', ''R''],
          [''P'', ''P'', ''P'', ''P'', ''P'', ''P'', ''P'', ''P''],
          ['' '', ''P'', ''R'', ''P'', ''N'', ''P'', ''B'', '' ''],
          ['' '', '' '', '' '', '' '', '' '', '' '', '' '', '' ''],
          ['' '', ''R'', '' '', '' '', '' '', '' '', '' '', '' ''],
          ['' '', ''r'', '' '', '' '', '' '', '' '', '' '', '' ''],
          [''p'', ''p'', ''p'', ''p'', ''p'', ''p'', ''p'', ''p''],
          ['' '', ''n'', ''b'', ''q'', ''k'', ''b'', ''n'', ''r'']]"
    by (elim exE conjE) (rule that, assumption+)
  from play_reachable [OF reachable.init p] have r: "reachable e" .
  from at_most_one_king [OF r] p l b show ?thesis
    by (intro exI [of _ e]) simp
qed

subsection \<open>The birth queues\<close>

lemma births_rotate:
  "q \<noteq> [] \<Longrightarrow> births n q = Some (map (\<lambda>k. q ! (k mod length q)) [0..<n], rotate n q)"
proof (induction n arbitrary: q)
  case 0
  then show ?case by simp
next
  case (Suc n)
  then obtain x rest where q: "q = x # rest" by (cases q) auto
  let ?q1 = "rest @ [x]"
  have q1: "?q1 = rotate1 q" by (simp add: q)
  have len: "length ?q1 = length q" by (simp add: q)
  have nth: "?q1 ! (k mod length ?q1) = q ! (Suc k mod length q)" for k
  proof -
    have "?q1 ! (k mod length ?q1) = q ! (Suc (k mod length q) mod length q)"
      unfolding q1 using Suc.prems by (simp add: nth_rotate1)
    then show ?thesis by (simp add: mod_Suc_eq)
  qed
  have "births (Suc n) q =
      Some (x # map (\<lambda>k. ?q1 ! (k mod length ?q1)) [0..<n], rotate n ?q1)"
    using Suc.IH [of ?q1] by (simp add: q)
  also have "x # map (\<lambda>k. ?q1 ! (k mod length ?q1)) [0..<n] =
      map (\<lambda>k. q ! (k mod length q)) [0..<Suc n]"
  proof -
    have "[0..<Suc n] = 0 # map Suc [0..<n]" by (simp add: upt_conv_Cons map_Suc_upt del: upt_Suc)
    then have "map (\<lambda>k. q ! (k mod length q)) [0..<Suc n] =
        q ! 0 # map (\<lambda>k. q ! (Suc k mod length q)) [0..<n]"
      by (simp add: comp_def del: upt_Suc)
    with nth show ?thesis by (simp add: q)
  qed
  also have "rotate n ?q1 = rotate (Suc n) q" by (simp add: q1 rotate1_rotate_swap)
  finally show ?case .
qed

lemma births_full_cycle:
  assumes "length q = 14"
  shows "births 14 q = Some (q, q)"
proof -
  from assms have ne: "q \<noteq> []" by auto
  have "map (\<lambda>k. q ! (k mod length q)) [0..<14] = map (\<lambda>k. q ! k) [0..<length q]"
    unfolding assms by (rule map_cong) simp_all
  also have "\<dots> = q" by (rule map_nth)
  finally have m: "map (\<lambda>k. q ! (k mod length q)) [0..<14] = q" .
  have r: "rotate 14 q = q" using assms by (simp add: rotate_id)
  from births_rotate [OF ne, of 14] m r show ?thesis by simp
qed

lemma births_append:
  assumes "births m q = Some (s1, q1)" and "births n q1 = Some (s2, q2)"
  shows "births (m + n) q = Some (s1 @ s2, q2)"
  using assms
proof (induction m arbitrary: q s1)
  case 0
  then show ?case by simp
next
  case (Suc m)
  from Suc.prems(1) obtain x rest where q: "q = x # rest" by (cases q) auto
  from Suc.prems(1) obtain sp where sp: "births m (rest @ [x]) = Some (sp, q1)"
    and s1: "s1 = x # sp"
    by (auto simp: q split: option.splits)
  from Suc.IH [OF sp Suc.prems(2)] show ?case by (simp add: q s1)
qed

text \<open>One birth pass, read against \<open>births\<close>: the pieces the pass puts on the board are
  the kinds that \<open>births\<close> pops, square by square in scan order, and the mover's queue
  after the pass is the queue that \<open>births\<close> leaves.\<close>

lemma birth_pass_births:
  assumes "board_shape (board e)" and "current_turn e = c" and "c = White \<or> c = Black"
    and "q = (if c = White then white_birth_queue e else black_birth_queue e)"
    and "q \<noteq> []" and "\<forall>l\<in>set q. kind_of_letter l \<noteq> None"
    and "due = filter (birth_due (board e) c) (scan_squares c)"
  shows "\<exists>e' spawned.
           birth_pass e = Inr e'
         \<and> births (length due) q =
             Some (spawned, if c = White then white_birth_queue e' else black_birth_queue e')
         \<and> (if c = White then white_birth_queue e' else black_birth_queue e') =
             rotate (length due) q
         \<and> (if c = White then black_birth_queue e' = black_birth_queue e
             else white_birth_queue e' = white_birth_queue e)
         \<and> length spawned = length due
         \<and> (\<forall>k<length due.
               spawned ! k = q ! (k mod length q)
             \<and> kind_of_letter (spawned ! k) =
                 Some (kind (board e' ! nat (fst (due ! k)) ! nat (snd (due ! k))))
             \<and> side (board e' ! nat (fst (due ! k)) ! nat (snd (due ! k))) = c)"
proof -
  let ?n = "length due"
  let ?sp = "map (\<lambda>k. q ! (k mod length q)) [0..<?n]"
  from birth_pass_result [OF assms] obtain b' where
    res: "birth_pass e =
                 Inr (if c = White
                      then e\<lparr>board := b', white_birth_queue := rotate ?n q\<rparr>
                      else e\<lparr>board := b', black_birth_queue := rotate ?n q\<rparr>)"
    and placed: "\<forall>k<?n.
                  \<exists>K. kind_of_letter (q ! (k mod length q)) = Some K \<and>
                    b' ! nat (fst (due ! k)) ! nat (snd (due ! k)) =
                      set_position (new_piece K c) (fst (due ! k)) (snd (due ! k))"
    by blast
  let ?e' = "if c = White
                      then e\<lparr>board := b', white_birth_queue := rotate ?n q\<rparr>
                      else e\<lparr>board := b', black_birth_queue := rotate ?n q\<rparr>"
  have b: "board ?e' = b'" by simp
  have qc: "(if c = White then white_birth_queue ?e' else black_birth_queue ?e') = rotate ?n q"
    by simp
  have qo: "if c = White then black_birth_queue ?e' = black_birth_queue e
             else white_birth_queue ?e' = white_birth_queue e"
    by simp
  from births_rotate [OF assms(5), of ?n] qc
  have bs: "births ?n q =
      Some (?sp, if c = White then white_birth_queue ?e' else black_birth_queue ?e')"
    by simp
  have len: "length ?sp = ?n" by simp
  have each: "\<forall>k<?n.
               ?sp ! k = q ! (k mod length q)
             \<and> kind_of_letter (?sp ! k) =
                 Some (kind (board ?e' ! nat (fst (due ! k)) ! nat (snd (due ! k))))
             \<and> side (board ?e' ! nat (fst (due ! k)) ! nat (snd (due ! k))) = c"
  proof (intro allI impI)
    fix k assume k: "k < ?n"
    then have nth: "?sp ! k = q ! (k mod length q)" by simp
    from placed k obtain K where K: "kind_of_letter (q ! (k mod length q)) = Some K"
      and at: "b' ! nat (fst (due ! k)) ! nat (snd (due ! k)) =
                      set_position (new_piece K c) (fst (due ! k)) (snd (due ! k))"
      by blast
    from born_fields [OF at] have "kind (b' ! nat (fst (due ! k)) ! nat (snd (due ! k))) = K"
      and "side (b' ! nat (fst (due ! k)) ! nat (snd (due ! k))) = c"
      by simp_all
    with nth K b
    show "?sp ! k = q ! (k mod length q)
             \<and> kind_of_letter (?sp ! k) =
                 Some (kind (board ?e' ! nat (fst (due ! k)) ! nat (snd (due ! k))))
             \<and> side (board ?e' ! nat (fst (due ! k)) ! nat (snd (due ! k))) = c"
      by simp
  qed
  from res bs qc qo len each show ?thesis by blast
qed

text \<open>Outside the birth pass no statement of \<^verbatim>\<open>update_state\<close> touches a queue, and the
  birth pass touches only the queue of the side whose turn begins.\<close>

lemma stockfish_key_queues:
  assumes "stockfish_key e sf = (e1, k1)"
  shows "white_birth_queue e1 = white_birth_queue e \<and> black_birth_queue e1 = black_birth_queue e
     \<and> current_turn e1 = current_turn e"
  using assms
  by (auto simp: stockfish_key_def Let_def split: option.splits sum.splits if_splits)

lemma engine_move_is_valid_turn:
  assumes "engine_move_is_valid e source dest sf = Inr (e1, accepted)"
  shows "current_turn e1 = current_turn e"
  using assms
  by (auto simp: engine_move_is_valid_def Let_def
      split: sum.splits option.splits if_splits bool.splits)

lemma birth_pass_queues:
  assumes "birth_pass e = Inr e'"
  shows "current_turn e' = current_turn e
     \<and> (current_turn e \<noteq> White \<longrightarrow> white_birth_queue e' = white_birth_queue e)
     \<and> (current_turn e \<noteq> Black \<longrightarrow> black_birth_queue e' = black_birth_queue e)"
  using assms by (auto simp: birth_pass_def split: if_splits sum.splits)

lemma resolve_turn_queues:
  assumes "resolve_turn e0 = Inr (e', changed)"
  shows "current_turn e' \<noteq> current_turn e0
     \<and> (current_turn e' \<noteq> White \<longrightarrow> white_birth_queue e' = white_birth_queue e0)
     \<and> (current_turn e' \<noteq> Black \<longrightarrow> black_birth_queue e' = black_birth_queue e0)"
proof -
  let ?e3 = "e0\<lparr>selected_piece := None,
                 current_turn := (if current_turn e0 = White then Black else White),
                 board := tick_all (board e0) (if current_turn e0 = White then Black else White)
                            True\<rparr>"
  from assms obtain e4 where e4: "birth_pass ?e3 = Inr e4"
    by (auto simp: resolve_turn_def Let_def split: sum.splits)
  from assms e4 have q: "white_birth_queue e' = white_birth_queue e4"
    "black_birth_queue e' = black_birth_queue e4" "current_turn e' = current_turn e4"
    by (auto simp: resolve_turn_def Let_def split: prod.splits option.splits)
  from birth_pass_queues [OF e4] q show ?thesis by (auto split: if_splits)
qed

lemma enter_key_queues:
  assumes "enter_key e sf = Inr (e', changed)"
  shows "(current_turn e' = current_turn e \<longrightarrow>
            white_birth_queue e' = white_birth_queue e
          \<and> black_birth_queue e' = black_birth_queue e)
     \<and> (current_turn e' \<noteq> White \<longrightarrow> white_birth_queue e' = white_birth_queue e)
     \<and> (current_turn e' \<noteq> Black \<longrightarrow> black_birth_queue e' = black_birth_queue e)"
proof -
  from assms obtain at_cursor where
    g: "get_piece (board e) (cursor_row e) (cursor_col e) = Inr at_cursor"
    by (auto simp: enter_key_def split: sum.splits)
  show ?thesis
  proof (cases "selected_piece e")
    case None
    with assms g show ?thesis by (auto simp: enter_key_def split: if_splits)
  next
    case (Some source)
    with assms g obtain e1 accepted where
      v: "engine_move_is_valid e source at_cursor sf = Inr (e1, accepted)"
      by (auto simp: enter_key_def split: sum.splits)
    note q1 = engine_move_is_valid_result [OF v] engine_move_is_valid_turn [OF v]
    show ?thesis
    proof (cases accepted)
      case False
      with assms g Some v q1 show ?thesis by (auto simp: enter_key_def)
    next
      case True
      obtain b res where m: "move_piece (board e1) source at_cursor = (b, res)"
        by (cases "move_piece (board e1) source at_cursor")
      show ?thesis
      proof (cases res)
        case (Inl x)
        with assms g Some v True m q1 show ?thesis by (auto simp: enter_key_def)
      next
        case (Inr moved)
        with assms g Some v True m
        have "resolve_turn (e1\<lparr>board := b\<rparr>) = Inr (e', changed)"
          by (auto simp: enter_key_def)
        from resolve_turn_queues [OF this] q1 show ?thesis by simp
      qed
    qed
  qed
qed

lemma update_state_queues:
  assumes "update_state e k sf = Inr (e', changed)"
  shows "(current_turn e' = current_turn e \<longrightarrow>
            white_birth_queue e' = white_birth_queue e
          \<and> black_birth_queue e' = black_birth_queue e)
     \<and> (current_turn e' \<noteq> White \<longrightarrow> white_birth_queue e' = white_birth_queue e)
     \<and> (current_turn e' \<noteq> Black \<longrightarrow> black_birth_queue e' = black_birth_queue e)"
proof (cases k)
  case Key_up
  with assms show ?thesis by (auto simp: update_state_def)
next
  case Key_down
  with assms show ?thesis by (auto simp: update_state_def)
next
  case Key_left
  with assms show ?thesis by (auto simp: update_state_def)
next
  case Key_right
  with assms show ?thesis by (auto simp: update_state_def)
next
  case Key_stockfish
  obtain e1 k1 where s: "stockfish_key e sf = (e1, k1)" by (cases "stockfish_key e sf")
  note q1 = stockfish_key_queues [OF s]
  show ?thesis
  proof (cases "k1 = Key_enter")
    case True
    with assms Key_stockfish s have "enter_key e1 sf = Inr (e', changed)"
      by (simp add: update_state_def)
    from enter_key_queues [OF this] q1 show ?thesis by simp
  next
    case False
    with assms Key_stockfish s q1 show ?thesis
      by (auto simp: update_state_def split: if_splits)
  qed
next
  case Key_enter
  with assms have "enter_key e sf = Inr (e', changed)" by (simp add: update_state_def)
  from enter_key_queues [OF this] show ?thesis .
next
  case Key_other
  with assms show ?thesis by (auto simp: update_state_def)
qed

text \<open>
  Claim C5, as amended. Both queues start as the seed, of length 14. A birth pass of
  \<^verbatim>\<open>update_state\<close> that gives birth on \<open>n\<close> squares pops \<open>n\<close> kinds off the mover's queue and
  pushes each to the back: the pieces it puts on the board are, square by square in scan
  order, the queue's entries read cyclically from the front (the list \<open>births n\<close> spawns),
  the mover's queue ends rotated by \<open>n\<close> and the other queue is untouched. No other statement
  of \<^verbatim>\<open>update_state\<close> changes a queue: a call that does not end the turn leaves both
  queues as they are and a call that ends it changes at most the queue of the side whose
  turn begins. Births of successive passes add up: \<open>m\<close> births followed by \<open>n\<close> births are
  \<open>m + n\<close> births. Hence in every reachable engine each queue is a rotation of the seed, of
  length 14, and 14 births in a row for one side spawn that side's queue as it stood before
  them, in order, and leave it as it stood. Starting from the seed, the 14 kinds are the
  seed order and the queue is the seed again.
\<close>

theorem birth_queue_cycle:
  "white_birth_queue Engine_init = birth_queue_seed
   \<and> black_birth_queue Engine_init = birth_queue_seed
   \<and> birth_queue_seed =
       [''P'', ''R'', ''P'', ''N'', ''P'', ''B'', ''P'', ''Q'', ''P'', ''B'', ''P'', ''N'', ''P'', ''R'']
   \<and> length birth_queue_seed = 14
   \<and> (board_shape (board e) \<and> current_turn e = c \<and> (c = White \<or> c = Black)
      \<and> q = (if c = White then white_birth_queue e else black_birth_queue e)
      \<and> q \<noteq> [] \<and> (\<forall>l\<in>set q. kind_of_letter l \<noteq> None)
      \<and> due = filter (birth_due (board e) c) (scan_squares c)
      \<longrightarrow> (\<exists>e' spawned.
             birth_pass e = Inr e'
           \<and> births (length due) q =
               Some (spawned, if c = White then white_birth_queue e' else black_birth_queue e')
           \<and> (if c = White then white_birth_queue e' else black_birth_queue e') =
               rotate (length due) q
           \<and> (if c = White then black_birth_queue e' = black_birth_queue e
               else white_birth_queue e' = white_birth_queue e)
           \<and> length spawned = length due
           \<and> (\<forall>k<length due.
                 spawned ! k = q ! (k mod length q)
               \<and> kind_of_letter (spawned ! k) =
                   Some (kind (board e' ! nat (fst (due ! k)) ! nat (snd (due ! k))))
               \<and> side (board e' ! nat (fst (due ! k)) ! nat (snd (due ! k))) = c)))
   \<and> (update_state r k sf = Inr (r', changed) \<longrightarrow>
        (current_turn r' = current_turn r \<longrightarrow>
            white_birth_queue r' = white_birth_queue r
          \<and> black_birth_queue r' = black_birth_queue r)
        \<and> (current_turn r' \<noteq> White \<longrightarrow> white_birth_queue r' = white_birth_queue r)
        \<and> (current_turn r' \<noteq> Black \<longrightarrow> black_birth_queue r' = black_birth_queue r))
   \<and> (births m qa = Some (sa, qb) \<and> births n qb = Some (sb, qc) \<longrightarrow>
        births (m + n) qa = Some (sa @ sb, qc))
   \<and> (reachable g \<longrightarrow>
        (\<exists>i<14. white_birth_queue g = rotate i birth_queue_seed)
        \<and> (\<exists>i<14. black_birth_queue g = rotate i birth_queue_seed)
        \<and> length (white_birth_queue g) = 14 \<and> length (black_birth_queue g) = 14
        \<and> births 14 (white_birth_queue g) = Some (white_birth_queue g, white_birth_queue g)
        \<and> births 14 (black_birth_queue g) = Some (black_birth_queue g, black_birth_queue g))
   \<and> births 14 birth_queue_seed = Some (birth_queue_seed, birth_queue_seed)"
proof -
  have a: "white_birth_queue Engine_init = birth_queue_seed
      \<and> black_birth_queue Engine_init = birth_queue_seed"
    by (simp add: Engine_init_def)
  have b: "birth_queue_seed =
       [''P'', ''R'', ''P'', ''N'', ''P'', ''B'', ''P'', ''Q'', ''P'', ''B'', ''P'', ''N'', ''P'', ''R'']"
    by (simp add: birth_queue_seed_def)
  have c: "board_shape (board e) \<and> current_turn e = c \<and> (c = White \<or> c = Black)
      \<and> q = (if c = White then white_birth_queue e else black_birth_queue e)
      \<and> q \<noteq> [] \<and> (\<forall>l\<in>set q. kind_of_letter l \<noteq> None)
      \<and> due = filter (birth_due (board e) c) (scan_squares c)
      \<longrightarrow> (\<exists>e' spawned.
             birth_pass e = Inr e'
           \<and> births (length due) q =
               Some (spawned, if c = White then white_birth_queue e' else black_birth_queue e')
           \<and> (if c = White then white_birth_queue e' else black_birth_queue e') =
               rotate (length due) q
           \<and> (if c = White then black_birth_queue e' = black_birth_queue e
               else white_birth_queue e' = white_birth_queue e)
           \<and> length spawned = length due
           \<and> (\<forall>k<length due.
                 spawned ! k = q ! (k mod length q)
               \<and> kind_of_letter (spawned ! k) =
                   Some (kind (board e' ! nat (fst (due ! k)) ! nat (snd (due ! k))))
               \<and> side (board e' ! nat (fst (due ! k)) ! nat (snd (due ! k))) = c))"
    using birth_pass_births [of e c q due] by blast
  have d: "update_state r k sf = Inr (r', changed) \<longrightarrow>
        (current_turn r' = current_turn r \<longrightarrow>
            white_birth_queue r' = white_birth_queue r
          \<and> black_birth_queue r' = black_birth_queue r)
        \<and> (current_turn r' \<noteq> White \<longrightarrow> white_birth_queue r' = white_birth_queue r)
        \<and> (current_turn r' \<noteq> Black \<longrightarrow> black_birth_queue r' = black_birth_queue r)"
    using update_state_queues [of r k sf r' changed] by blast
  have f: "births m qa = Some (sa, qb) \<and> births n qb = Some (sb, qc) \<longrightarrow>
        births (m + n) qa = Some (sa @ sb, qc)"
    using births_append [of m qa sa qb n sb qc] by blast
  have g: "(\<exists>i<14. white_birth_queue g = rotate i birth_queue_seed)
        \<and> (\<exists>i<14. black_birth_queue g = rotate i birth_queue_seed)
        \<and> length (white_birth_queue g) = 14 \<and> length (black_birth_queue g) = 14
        \<and> births 14 (white_birth_queue g) = Some (white_birth_queue g, white_birth_queue g)
        \<and> births 14 (black_birth_queue g) = Some (black_birth_queue g, black_birth_queue g)"
    if "reachable g"
  proof -
    from reachable_inv [OF that]
    have w: "\<exists>i<14. white_birth_queue g = rotate i birth_queue_seed"
      and k: "\<exists>i<14. black_birth_queue g = rotate i birth_queue_seed"
      by (simp_all add: engine_inv_iff seed_rotation_iff)
    from w have lw: "length (white_birth_queue g) = 14" by (auto simp: seed_length)
    from k have lk: "length (black_birth_queue g) = 14" by (auto simp: seed_length)
    from w k lw lk births_full_cycle [OF lw] births_full_cycle [OF lk] show ?thesis by blast
  qed
  from a b c d f g seed_length births_full_cycle [OF seed_length] show ?thesis by blast
qed

text \<open>The theorem at three places. The birth pass of \<open>due_engine\<close> gives birth on a3, b3
  and f5: it spawns P, R, P and leaves White's queue rotated by three. The last key of the
  sample game ends Black's turn: Black's queue stays as it was, while White's queue goes
  from the seed to the seed rotated by six and six white pieces appear on the third rank.
  At the end of the sample game, a reachable engine, 14 births spawn that rotated order.\<close>

theorem birth_queue_cycle_witness:
  "(\<exists>e'. birth_pass due_engine = Inr e'
        \<and> births 3 birth_queue_seed = Some ([''P'', ''R'', ''P''], white_birth_queue e')
        \<and> white_birth_queue e' =
            [''N'', ''P'', ''B'', ''P'', ''Q'', ''P'', ''B'', ''P'', ''N'', ''P'', ''R'', ''P'', ''R'', ''P'']
        \<and> black_birth_queue e' = birth_queue_seed
        \<and> kind (board e' ! 2 ! 0) = Pawn \<and> side (board e' ! 2 ! 0) = White
        \<and> kind (board e' ! 2 ! 1) = Rook \<and> side (board e' ! 2 ! 1) = White
        \<and> kind (board e' ! 4 ! 5) = Pawn \<and> side (board e' ! 4 ! 5) = White)
   \<and> (\<exists>g0 g. play Engine_init None (butlast sample_game_keys) = Inr g0
        \<and> update_state g0 Key_enter None = Inr (g, True)
        \<and> play Engine_init None sample_game_keys = Inr g
        \<and> recent_moves_str g = [''Ra1-> a5'', ''ra8-> a6'', ''Ra5-> b5'', ''ra6-> b6'']
        \<and> current_turn g0 = Black \<and> current_turn g = White
        \<and> black_birth_queue g = black_birth_queue g0
        \<and> white_birth_queue g0 = birth_queue_seed
        \<and> white_birth_queue g = rotate 6 birth_queue_seed
        \<and> map str_piece (board g0 ! 2) = ['' '', '' '', '' '', '' '', '' '', '' '', '' '', '' '']
        \<and> map str_piece (board g ! 2) = ['' '', ''P'', ''R'', ''P'', ''N'', ''P'', ''B'', '' '']
        \<and> map side (board g ! 2) =
            [EmptySide, White, White, White, White, White, White, EmptySide]
        \<and> length (white_birth_queue g) = 14 \<and> length (black_birth_queue g) = 14
        \<and> births 14 (white_birth_queue g) =
            Some ([''P'', ''Q'', ''P'', ''B'', ''P'', ''N'', ''P'', ''R'', ''P'', ''R'', ''P'', ''N'', ''P'', ''B''],
                  rotate 6 birth_queue_seed))
   \<and> births (3 + 11) birth_queue_seed =
       Some ([''P'', ''R'', ''P''] @
             [''N'', ''P'', ''B'', ''P'', ''Q'', ''P'', ''B'', ''P'', ''N'', ''P'', ''R''],
             birth_queue_seed)"
proof -
  have sh: "board_shape (board due_engine)" by code_simp
  have t: "current_turn due_engine = White" by code_simp
  have q: "birth_queue_seed = (if White = White then white_birth_queue due_engine
                                else black_birth_queue due_engine)" by code_simp
  have bq: "black_birth_queue due_engine = birth_queue_seed" by code_simp
  have ne: "birth_queue_seed \<noteq> []" by code_simp
  have ok: "\<forall>l\<in>set birth_queue_seed. kind_of_letter l \<noteq> None" by code_simp
  have b3: "births 3 birth_queue_seed =
      Some ([''P'', ''R'', ''P''],
        [''N'', ''P'', ''B'', ''P'', ''Q'', ''P'', ''B'', ''P'', ''N'', ''P'', ''R'', ''P'', ''R'', ''P''])"
    by code_simp
  have b11: "births 11
        [''N'', ''P'', ''B'', ''P'', ''Q'', ''P'', ''B'', ''P'', ''N'', ''P'', ''R'', ''P'', ''R'', ''P''] =
      Some ([''N'', ''P'', ''B'', ''P'', ''Q'', ''P'', ''B'', ''P'', ''N'', ''P'', ''R''],
            birth_queue_seed)"
    by code_simp
  have r6: "rotate 6 birth_queue_seed =
      [''P'', ''Q'', ''P'', ''B'', ''P'', ''N'', ''P'', ''R'', ''P'', ''R'', ''P'', ''N'', ''P'', ''B'']"
    by code_simp
  have k: "kind_of_letter ''P'' = Some Pawn" "kind_of_letter ''R'' = Some Rook" by code_simp+
  let ?due = "[(2::int, 0::int), (2, 1), (4, 5)]"
  have l3: "length ?due = 3" by simp
  from sample_game_end obtain g0 g where
    p0: "play Engine_init None (butlast sample_game_keys) = Inr g0"
    and u: "update_state g0 Key_enter None = Inr (g, True)"
    and p: "play Engine_init None sample_game_keys = Inr g"
    and l: "recent_moves_str g = [''Ra1-> a5'', ''ra8-> a6'', ''Ra5-> b5'', ''ra6-> b6'']"
    and t0: "current_turn g0 = Black" and t1: "current_turn g = White"
    and wq0: "white_birth_queue g0 = birth_queue_seed"
    and wq: "white_birth_queue g =
         [''P'', ''Q'', ''P'', ''B'', ''P'', ''N'', ''P'', ''R'', ''P'', ''R'', ''P'', ''N'', ''P'', ''B'']"
    and row0: "map str_piece (board g0 ! 2) =
         ['' '', '' '', '' '', '' '', '' '', '' '', '' '', '' '']"
    and b: "map (map str_piece) (board g) =
         [['' '', ''N'', ''B'', ''Q'', ''K'', ''B'', ''N'', ''R''],
          [''P'', ''P'', ''P'', ''P'', ''P'', ''P'', ''P'', ''P''],
          ['' '', ''P'', ''R'', ''P'', ''N'', ''P'', ''B'', '' ''],
          ['' '', '' '', '' '', '' '', '' '', '' '', '' '', '' ''],
          ['' '', ''R'', '' '', '' '', '' '', '' '', '' '', '' ''],
          ['' '', ''r'', '' '', '' '', '' '', '' '', '' '', '' ''],
          [''p'', ''p'', ''p'', ''p'', ''p'', ''p'', ''p'', ''p''],
          ['' '', ''n'', ''b'', ''q'', ''k'', ''b'', ''n'', ''r'']]"
    and sd: "map side (board g ! 2) =
         [EmptySide, White, White, White, White, White, White, EmptySide]"
    by (elim exE conjE) (rule that, assumption+)
  from play_reachable [OF reachable.init p] have rg: "reachable g" .
  from b have "length (board g) = 8"
    using length_map [of "map str_piece" "board g"] by simp
  then have "map (map str_piece) (board g) ! 2 = map str_piece (board g ! 2)" by simp
  with b have row: "map str_piece (board g ! 2) =
      ['' '', ''P'', ''R'', ''P'', ''N'', ''P'', ''B'', '' '']" by simp
  note inst = birth_queue_cycle [where e = due_engine and c = White and q = birth_queue_seed
      and due = "?due" and r = g0 and k = Key_enter and sf = None and r' = g and changed = True
      and g = g and m = 3 and n = 11 and qa = birth_queue_seed
      and sa = "[''P'', ''R'', ''P'']"
      and qb = "[''N'', ''P'', ''B'', ''P'', ''Q'', ''P'', ''B'', ''P'', ''N'', ''P'', ''R'', ''P'', ''R'', ''P'']"
      and sb = "[''N'', ''P'', ''B'', ''P'', ''Q'', ''P'', ''B'', ''P'', ''N'', ''P'', ''R'']"
      and qc = birth_queue_seed]
  note rest = inst [THEN conjunct2, THEN conjunct2, THEN conjunct2, THEN conjunct2]
  note pass = rest [THEN conjunct1]
  note frame = rest [THEN conjunct2, THEN conjunct1]
  note add = rest [THEN conjunct2, THEN conjunct2, THEN conjunct1]
  note reach = rest [THEN conjunct2, THEN conjunct2, THEN conjunct2, THEN conjunct1]
  from pass sh t q ne ok due_list obtain e' spawned where
    res: "birth_pass due_engine = Inr e'"
    and bs0: "births (length ?due) birth_queue_seed =
               Some (spawned, if White = White then white_birth_queue e'
                              else black_birth_queue e')"
    and qo0: "if White = White then black_birth_queue e' = black_birth_queue due_engine
               else white_birth_queue e' = white_birth_queue due_engine"
    and each: "\<forall>k<length ?due.
                 spawned ! k = birth_queue_seed ! (k mod length birth_queue_seed)
               \<and> kind_of_letter (spawned ! k) =
                   Some (kind (board e' ! nat (fst (?due ! k)) ! nat (snd (?due ! k))))
               \<and> side (board e' ! nat (fst (?due ! k)) ! nat (snd (?due ! k))) = White"
    by blast
  from bs0 have "births 3 birth_queue_seed = Some (spawned, white_birth_queue e')"
    by (simp only: l3 simp_thms if_True)
  with b3 have sp: "spawned = [''P'', ''R'', ''P'']"
    and wq': "white_birth_queue e' =
        [''N'', ''P'', ''B'', ''P'', ''Q'', ''P'', ''B'', ''P'', ''N'', ''P'', ''R'', ''P'', ''R'', ''P'']"
    by simp_all
  from qo0 bq have bq': "black_birth_queue e' = birth_queue_seed" by simp
  from each [rule_format, of 0] k
  have p0': "kind (board e' ! 2 ! 0) = Pawn \<and> side (board e' ! 2 ! 0) = White"
    by (simp add: sp)
  from each [rule_format, of 1] k
  have p1': "kind (board e' ! 2 ! 1) = Rook \<and> side (board e' ! 2 ! 1) = White"
    by (simp add: sp)
  from each [rule_format, of 2] k
  have p2': "kind (board e' ! 4 ! 5) = Pawn \<and> side (board e' ! 4 ! 5) = White"
    by (simp add: sp)
  from b3 sp wq'
  have b3': "births 3 birth_queue_seed = Some ([''P'', ''R'', ''P''], white_birth_queue e')"
    by simp
  have first: "\<exists>e'. birth_pass due_engine = Inr e'
        \<and> births 3 birth_queue_seed = Some ([''P'', ''R'', ''P''], white_birth_queue e')
        \<and> white_birth_queue e' =
            [''N'', ''P'', ''B'', ''P'', ''Q'', ''P'', ''B'', ''P'', ''N'', ''P'', ''R'', ''P'', ''R'', ''P'']
        \<and> black_birth_queue e' = birth_queue_seed
        \<and> kind (board e' ! 2 ! 0) = Pawn \<and> side (board e' ! 2 ! 0) = White
        \<and> kind (board e' ! 2 ! 1) = Rook \<and> side (board e' ! 2 ! 1) = White
        \<and> kind (board e' ! 4 ! 5) = Pawn \<and> side (board e' ! 4 ! 5) = White"
    using res b3' wq' bq' p0' p1' p2' by (intro exI [of _ e']) simp
  from frame [rule_format, OF u]
  have "current_turn g \<noteq> Black \<longrightarrow> black_birth_queue g = black_birth_queue g0"
    by simp
  with t1 have fr: "black_birth_queue g = black_birth_queue g0" by simp
  from reach [rule_format, OF rg]
  have lg: "length (white_birth_queue g) = 14 \<and> length (black_birth_queue g) = 14"
    and cyc: "births 14 (white_birth_queue g) = Some (white_birth_queue g, white_birth_queue g)"
    by simp_all
  from cyc wq r6 have cyc': "births 14 (white_birth_queue g) =
            Some ([''P'', ''Q'', ''P'', ''B'', ''P'', ''N'', ''P'', ''R'', ''P'', ''R'', ''P'', ''N'', ''P'', ''B''],
                  rotate 6 birth_queue_seed)"
    by simp
  from wq r6 have wq6: "white_birth_queue g = rotate 6 birth_queue_seed" by simp
  have second: "\<exists>g0 g. play Engine_init None (butlast sample_game_keys) = Inr g0
        \<and> update_state g0 Key_enter None = Inr (g, True)
        \<and> play Engine_init None sample_game_keys = Inr g
        \<and> recent_moves_str g = [''Ra1-> a5'', ''ra8-> a6'', ''Ra5-> b5'', ''ra6-> b6'']
        \<and> current_turn g0 = Black \<and> current_turn g = White
        \<and> black_birth_queue g = black_birth_queue g0
        \<and> white_birth_queue g0 = birth_queue_seed
        \<and> white_birth_queue g = rotate 6 birth_queue_seed
        \<and> map str_piece (board g0 ! 2) = ['' '', '' '', '' '', '' '', '' '', '' '', '' '', '' '']
        \<and> map str_piece (board g ! 2) = ['' '', ''P'', ''R'', ''P'', ''N'', ''P'', ''B'', '' '']
        \<and> map side (board g ! 2) =
            [EmptySide, White, White, White, White, White, White, EmptySide]
        \<and> length (white_birth_queue g) = 14 \<and> length (black_birth_queue g) = 14
        \<and> births 14 (white_birth_queue g) =
            Some ([''P'', ''Q'', ''P'', ''B'', ''P'', ''N'', ''P'', ''R'', ''P'', ''R'', ''P'', ''N'', ''P'', ''B''],
                  rotate 6 birth_queue_seed)"
    using p0 u p l t0 t1 fr wq0 wq6 row0 row sd lg cyc'
    by (intro exI [of _ g0] exI [of _ g]) simp
  from add [rule_format, OF conjI [OF b3 b11]]
  have app: "births (3 + 11) birth_queue_seed =
       Some ([''P'', ''R'', ''P''] @
             [''N'', ''P'', ''B'', ''P'', ''Q'', ''P'', ''B'', ''P'', ''N'', ''P'', ''R''],
             birth_queue_seed)" .
  show ?thesis by (intro conjI first second app)
qed

text \<open>
  Claim C5 as stated fails for 14 consecutive births that do not start at the seed. On
  \<open>crowded_engine\<close>, where White's queue is the seed, one birth pass gives birth on fifteen
  squares, a3 to h3 and a4 to g4. The first birth is the Pawn on a3. The 14 births that
  follow it, on b3 to g4, spawn R, P, N, P, B, P, Q, P, B, P, N, P, R, P, which is not the
  seed order, and after them White's queue is the seed rotated by one, which is not the
  seed.
\<close>

theorem births_off_seed:
  "(case birth_pass crowded_engine of
      Inl x \<Rightarrow> False
    | Inr e' \<Rightarrow>
        white_birth_queue crowded_engine = birth_queue_seed
      \<and> map str_piece (board crowded_engine ! 2) =
          ['' '', '' '', '' '', '' '', '' '', '' '', '' '', '' '']
      \<and> map str_piece (board crowded_engine ! 3) =
          ['' '', '' '', '' '', '' '', '' '', '' '', '' '', '' '']
      \<and> filter (birth_due (board crowded_engine) White) (scan_squares White) =
          [(2, 0), (2, 1), (2, 2), (2, 3), (2, 4), (2, 5), (2, 6), (2, 7),
           (3, 0), (3, 1), (3, 2), (3, 3), (3, 4), (3, 5), (3, 6)]
      \<and> map str_piece (board e' ! 2) = [''P'', ''R'', ''P'', ''N'', ''P'', ''B'', ''P'', ''Q'']
      \<and> map str_piece (board e' ! 3) = [''P'', ''B'', ''P'', ''N'', ''P'', ''R'', ''P'', '' '']
      \<and> tl (map str_piece (board e' ! 2) @ butlast (map str_piece (board e' ! 3))) =
          [''R'', ''P'', ''N'', ''P'', ''B'', ''P'', ''Q'', ''P'', ''B'', ''P'', ''N'', ''P'', ''R'', ''P'']
      \<and> [''R'', ''P'', ''N'', ''P'', ''B'', ''P'', ''Q'', ''P'', ''B'', ''P'', ''N'', ''P'', ''R'', ''P'']
          \<noteq> birth_queue_seed
      \<and> white_birth_queue e' =
          [''R'', ''P'', ''N'', ''P'', ''B'', ''P'', ''Q'', ''P'', ''B'', ''P'', ''N'', ''P'', ''R'', ''P'']
      \<and> white_birth_queue e' \<noteq> birth_queue_seed)
   \<and> births 1 birth_queue_seed = Some ([''P''], rotate 1 birth_queue_seed)
   \<and> births 14 (rotate 1 birth_queue_seed) =
       Some ([''R'', ''P'', ''N'', ''P'', ''B'', ''P'', ''Q'', ''P'', ''B'', ''P'', ''N'', ''P'', ''R'', ''P''],
             rotate 1 birth_queue_seed)
   \<and> rotate 1 birth_queue_seed \<noteq> birth_queue_seed"
  by code_simp

subsection \<open>After the game is over\<close>

text \<open>
  Claim C1 fails on the code: \<^verbatim>\<open>update_state\<close> never reads \<^verbatim>\<open>game_over_message\<close>. From
  the initial position the keys \<open>capture_keys\<close> select the rook on a1 and try to capture
  the king on e8, which sets the game-over message. The keys left and enter that follow
  move the same rook to d8: the call returns \<^verbatim>\<open>True\<close>, the queen is captured, a1 is
  empty, the move is logged and the turn passes to Black.
\<close>

theorem moves_accepted_after_game_over:
  "(case play Engine_init None capture_keys of
      Inl x \<Rightarrow> False
    | Inr s \<Rightarrow>
        game_over_message s = Some ''Black king was captured, white wins!''
        \<and> current_turn s = White
        \<and> map str_piece (board s ! 7) = [''r'', ''n'', ''b'', ''q'', ''k'', ''b'', ''n'', ''r'']
        \<and> (case update_state s Key_left None of
              Inl x \<Rightarrow> False
            | Inr (s1, changed1) \<Rightarrow>
                (case update_state s1 Key_enter None of
                   Inl x \<Rightarrow> False
                 | Inr (s2, changed2) \<Rightarrow>
                     changed2
                     \<and> current_turn s2 = Black
                     \<and> map str_piece (board s2 ! 7) =
                         [''r'', ''n'', ''b'', ''R'', ''k'', ''b'', ''n'', ''r'']
                     \<and> str_piece (board s2 ! 0 ! 0) = '' ''
                     \<and> recent_moves_str s2 = [''Ra1->ke8'', ''Ra1->qd8'']
                     \<and> game_over_message s2 = Some ''Black king was captured, white wins!'')))"
  by code_simp

end
